theory Spec2Isabelle
  imports Complex_Main
begin

section \<open>JavaScript values\<close>

text \<open>
  The services exchange JSON-decoded data. A value is one of the JSON shapes plus
  \<open>undefined\<close> (what a missing property reads as). Numbers are the integral ones;
  strings are \<open>string\<close>, one \<open>char\<close> per code unit below 256. An object is its
  list of own properties in insertion order.
\<close>

datatype js =
    JUndefined
  | JNull
  | JBool bool
  | JNum int
  | JStr string
  | JArr "js list"
  | JObj "(string \<times> js) list"

text \<open>What a \<open>throw\<close> carries: the constructor of the error and its \<open>message\<close>.\<close>

datatype js_error = Error string | TypeError string

fun message :: "js_error \<Rightarrow> string" where
  "message (Error m) = m"
| "message (TypeError m) = m"

section \<open>String primitives\<close>

text \<open>Decimal rendering of a number, as template literals and \<open>String\<close> produce it.\<close>

fun showNat :: "nat \<Rightarrow> string" where
  "showNat n =
     (if n < 10 then [char_of (48 + n)]
      else showNat (n div 10) @ [char_of (48 + n mod 10)])"

declare showNat.simps [simp del]

definition showInt :: "int \<Rightarrow> string" where
  "showInt i = (if i < 0 then CHR ''-'' # showNat (nat (- i)) else showNat (nat i))"

text \<open>\<open>Array.prototype.join\<close> on strings.\<close>

fun join :: "string \<Rightarrow> string list \<Rightarrow> string" where
  "join sep [] = []"
| "join sep [x] = x"
| "join sep (x # y # ys) = x @ sep @ join sep (y # ys)"

text \<open>
  White space as \<open>trim\<close> and the class \<open>\s\<close> see it, among the code units below 256:
  tab, line feed, vertical tab, form feed, carriage return, space, no-break space.
\<close>

definition is_space :: "char \<Rightarrow> bool" where
  "is_space c = ((of_char c :: nat) \<in> {9, 10, 11, 12, 13, 32, 160})"

definition trim :: "string \<Rightarrow> string" where
  "trim s = rev (dropWhile is_space (rev (dropWhile is_space s)))"

text \<open>
  \<open>toLowerCase\<close>: the letters \<open>A\<close> to \<open>Z\<close> and the capital letters of Latin-1
  move up by 32.
\<close>

definition lower_char :: "char \<Rightarrow> char" where
  "lower_char c =
     (let n = (of_char c :: nat)
      in if (65 \<le> n \<and> n \<le> 90) \<or> (192 \<le> n \<and> n \<le> 214) \<or> (216 \<le> n \<and> n \<le> 222)
         then char_of (n + 32) else c)"

definition toLowerCase :: "string \<Rightarrow> string" where
  "toLowerCase s = map lower_char s"

text \<open>The class \<open>[a-z0-9]\<close>.\<close>

definition is_alnum :: "char \<Rightarrow> bool" where
  "is_alnum c =
     (let n = (of_char c :: nat) in (97 \<le> n \<and> n \<le> 122) \<or> (48 \<le> n \<and> n \<le> 57))"

definition is_hyphen :: "char \<Rightarrow> bool" where
  "is_hyphen c = (c = CHR ''-'')"

text \<open>\<open>s.replace(/[C]/g, r)\<close>: every character of the class becomes \<open>r\<close>.\<close>

definition replace_each :: "(char \<Rightarrow> bool) \<Rightarrow> char \<Rightarrow> string \<Rightarrow> string" where
  "replace_each P r s = map (\<lambda>c. if P c then r else c) s"

text \<open>\<open>s.replace(/[C]+/g, r)\<close>: every maximal run of the class becomes one \<open>r\<close>.\<close>

function replace_runs :: "(char \<Rightarrow> bool) \<Rightarrow> char \<Rightarrow> string \<Rightarrow> string" where
  "replace_runs P r [] = []"
| "replace_runs P r (c # cs) =
     (if P c then r # replace_runs P r (dropWhile P cs) else c # replace_runs P r cs)"
  by pat_completeness auto
termination
  by (relation "measure (\<lambda>(P, r, s). length s)")
     (auto simp: less_Suc_eq_le length_dropWhile_le)

text \<open>
  \<open>s.replace(/^-|-$/g, '')\<close>: one hyphen goes at the start, if there is one, and then
  one at the end of what is left.
\<close>

definition strip_edge_hyphens :: "string \<Rightarrow> string" where
  "strip_edge_hyphens s =
     (let s1 = (case s of [] \<Rightarrow> [] | c # cs \<Rightarrow> if is_hyphen c then cs else s)
      in if s1 \<noteq> [] \<and> is_hyphen (last s1) then butlast s1 else s1)"

definition startsWith :: "string \<Rightarrow> string \<Rightarrow> bool" where
  "startsWith s p = (take (length p) s = p)"

text \<open>\<open>arr.indexOf(x)\<close>: the first position of \<open>x\<close>, or \<open>-1\<close>.\<close>

fun indexOf :: "'a list \<Rightarrow> 'a \<Rightarrow> int" where
  "indexOf [] x = - 1"
| "indexOf (y # ys) x =
     (if y = x then 0 else (let r = indexOf ys x in if r < 0 then - 1 else r + 1))"

text \<open>\<open>arr.filter((x, index, arr) => arr.indexOf(x) === index)\<close>.\<close>

definition first_occurrences :: "'a list \<Rightarrow> 'a list" where
  "first_occurrences arr =
     map snd (filter (\<lambda>(index, x). indexOf arr x = int index) (enumerate 0 arr))"

section \<open>Operations on values\<close>

fun truthy :: "js \<Rightarrow> bool" where
  "truthy JUndefined = False"
| "truthy JNull = False"
| "truthy (JBool b) = b"
| "truthy (JNum n) = (n \<noteq> 0)"
| "truthy (JStr s) = (s \<noteq> [])"
| "truthy (JArr xs) = True"
| "truthy (JObj kvs) = True"

fun typeof :: "js \<Rightarrow> string" where
  "typeof JUndefined = ''undefined''"
| "typeof JNull = ''object''"
| "typeof (JBool b) = ''boolean''"
| "typeof (JNum n) = ''number''"
| "typeof (JStr s) = ''string''"
| "typeof (JArr xs) = ''object''"
| "typeof (JObj kvs) = ''object''"

fun isArray :: "js \<Rightarrow> bool" where
  "isArray (JArr xs) = True"
| "isArray v = False"

text \<open>
  \<open>record[field]\<close> for the keys the services read (none of them an index or
  \<open>length\<close>): an object gives the property or \<open>undefined\<close>, any other value
  \<open>undefined\<close>.
\<close>

fun get_prop :: "js \<Rightarrow> string \<Rightarrow> js" where
  "get_prop (JObj kvs) k = (case map_of kvs k of Some v \<Rightarrow> v | None \<Rightarrow> JUndefined)"
| "get_prop v k = JUndefined"

text \<open>
  \<open>String(v)\<close>. An array is its elements joined by commas, \<open>null\<close> and
  \<open>undefined\<close> elements being empty.
\<close>

fun js_String :: "js \<Rightarrow> string"
  and js_elem :: "js \<Rightarrow> string" where
  "js_String JUndefined = ''undefined''"
| "js_String JNull = ''null''"
| "js_String (JBool b) = (if b then ''true'' else ''false'')"
| "js_String (JNum n) = showInt n"
| "js_String (JStr s) = s"
| "js_String (JArr xs) = join '','' (map js_elem xs)"
| "js_String (JObj kvs) = ''[object Object]''"
| "js_elem JUndefined = []"
| "js_elem JNull = []"
| "js_elem v = js_String v"

text \<open>\<open>value.join(sep)\<close> on an array value.\<close>

definition js_join :: "string \<Rightarrow> js list \<Rightarrow> string" where
  "js_join sep xs = join sep (map js_elem xs)"

definition quoted :: "string \<Rightarrow> string" where
  "quoted k = [CHR 0x27] @ k @ [CHR 0x27]"

text \<open>
  \<open>field in sample\<close>, for the keys \<open>name\<close> and \<open>country\<close>: the operator throws
  a TypeError when the right operand is not an object.
\<close>

fun has_in :: "string \<Rightarrow> js \<Rightarrow> js_error + bool" where
  "has_in k (JObj kvs) = Inr (k \<in> fst ` set kvs)"
| "has_in k (JArr xs) = Inr False"
| "has_in k v =
     Inl (TypeError (''Cannot use 'in' operator to search for '' @ quoted k @ '' in '' @
                     js_String v))"

section \<open>config.js\<close>

record api_config =
  universitiesUrl :: string
  timeout :: nat
  retryAttempts :: nat
  retryDelay :: real
  maxRetryDelay :: real

definition config_api :: api_config where
  "config_api =
     \<lparr> universitiesUrl = ''http://universities.hipolabs.com/search?country=United+States'',
       timeout = 30000,
       retryAttempts = 3,
       retryDelay = 1000,
       maxRetryDelay = 10000 \<rparr>"

section \<open>extractService.js\<close>

text \<open>
  The constructor copies the five settings of \<open>config.api\<close> into the instance (the
  URL under the name \<open>apiUrl\<close>); an instance is modelled by the record of its settings.
\<close>

definition new_ExtractService :: "api_config \<Rightarrow> api_config" where
  "new_ExtractService c =
     \<lparr> universitiesUrl = universitiesUrl c,
       timeout = timeout c,
       retryAttempts = retryAttempts c,
       retryDelay = retryDelay c,
       maxRetryDelay = maxRetryDelay c \<rparr>"

text \<open>\<open>Math.pow(2, e)\<close> at an integral exponent.\<close>

definition Math_pow2 :: "int \<Rightarrow> real" where
  "Math_pow2 e = (if 0 \<le> e then 2 ^ nat e else 1 / 2 ^ nat (- e))"

text \<open>
  \<open>calculateRetryDelay(attempt)\<close>. The draw of \<open>Math.random()\<close>, a number in
  \<open>[0, 1)\<close>, is the argument \<open>rnd\<close>; the arithmetic is that of the reals.
\<close>

definition calculateRetryDelay :: "api_config \<Rightarrow> int \<Rightarrow> real \<Rightarrow> real" where
  "calculateRetryDelay svc attempt rnd =
     (let exponentialDelay = retryDelay svc * Math_pow2 (attempt - 1);
          jitter = rnd * 1000
      in min (exponentialDelay + jitter) (maxRetryDelay svc))"

text \<open>
  How one call of \<open>axios(requestConfig)\<close> settles: resolved with a status and a
  body, or rejected with a response (a status outside 200 to 299), with a request but no
  response, or before the request was sent.
\<close>

datatype axios_result =
    Resolved nat js
  | RejectedResponse nat string
  | RejectedRequest string
  | RejectedSetup string

text \<open>\<open>makeApiRequest()\<close>: the body of the response, or the error it throws.\<close>

fun makeApiRequest :: "axios_result \<Rightarrow> js_error + js" where
  "makeApiRequest (Resolved status body) = Inr body"
| "makeApiRequest (RejectedResponse status statusText) =
     Inl (Error (''API request failed with status '' @ showNat status @ '': '' @ statusText))"
| "makeApiRequest (RejectedRequest m) = Inl (Error (''No response received from API: '' @ m))"
| "makeApiRequest (RejectedSetup m) = Inl (Error (''Request setup failed: '' @ m))"

text \<open>The body of the \<open>try\<close> block of one attempt.\<close>

definition attempt_once :: "axios_result \<Rightarrow> js_error + js list" where
  "attempt_once r =
     (case makeApiRequest r of
        Inl e \<Rightarrow> Inl e
      | Inr body \<Rightarrow>
          (case body of
             JArr xs \<Rightarrow> Inr xs
           | _ \<Rightarrow> Inl (Error ''Invalid response format: expected array of universities'')))"

text \<open>
  What a run of \<open>extractData\<close> leaves behind besides its result: the number of
  requests sent and the delays slept, in order.
\<close>

record extract_trace =
  requests :: nat
  sleeps :: "real list"

text \<open>
  The loop of \<open>extractData\<close>, from attempt \<open>attempt\<close> on. \<open>net k\<close> is how the
  request number \<open>k\<close> (from 0) settles, \<open>rnd k\<close> the draw of \<open>Math.random()\<close> for
  the sleep number \<open>k\<close>. After the loop \<open>lastError.message\<close> is read, which throws a
  TypeError when no attempt was made.
\<close>

function extract_loop ::
  "api_config \<Rightarrow> (nat \<Rightarrow> axios_result) \<Rightarrow> (nat \<Rightarrow> real) \<Rightarrow> nat \<Rightarrow> js_error option \<Rightarrow>
     extract_trace \<Rightarrow> (js_error + js list) \<times> extract_trace" where
  "extract_loop svc net rnd attempt lastError tr =
     (if attempt \<le> retryAttempts svc then
        (let tr1 = tr\<lparr>requests := requests tr + 1\<rparr>
         in case attempt_once (net (requests tr)) of
              Inr xs \<Rightarrow> (Inr xs, tr1)
            | Inl e \<Rightarrow>
                extract_loop svc net rnd (attempt + 1) (Some e)
                  (if attempt < retryAttempts svc
                   then tr1\<lparr>sleeps := sleeps tr1 @
                          [calculateRetryDelay svc (int attempt) (rnd (length (sleeps tr1)))]\<rparr>
                   else tr1))
      else
        (case lastError of
           None \<Rightarrow>
             (Inl (TypeError ''Cannot read properties of undefined (reading 'message')''), tr)
         | Some e \<Rightarrow>
             (Inl (Error (''Failed to extract data after '' @ showNat (retryAttempts svc) @
                          '' attempts: '' @ message e)), tr)))"
  by pat_completeness auto
termination
  by (relation "measure (\<lambda>(svc, net, rnd, attempt, lastError, tr). retryAttempts svc + 1 - attempt)")
     auto

declare extract_loop.simps [simp del]

definition extractData ::
  "api_config \<Rightarrow> (nat \<Rightarrow> axios_result) \<Rightarrow> (nat \<Rightarrow> real) \<Rightarrow> (js_error + js list) \<times> extract_trace" where
  "extractData svc net rnd = extract_loop svc net rnd 1 None \<lparr>requests = 0, sleeps = []\<rparr>"

text \<open>\<open>validateExtractedData(data)\<close>; the loop over \<open>['name', 'country']\<close> is unrolled.\<close>

definition validateExtractedData :: "js \<Rightarrow> js_error + bool" where
  "validateExtractedData d =
     (case d of
        JArr xs \<Rightarrow>
          (case xs of
             [] \<Rightarrow> Inr True
           | sample # _ \<Rightarrow>
               (case has_in ''name'' sample of
                  Inl e \<Rightarrow> Inl e
                | Inr False \<Rightarrow> Inr False
                | Inr True \<Rightarrow>
                    (case has_in ''country'' sample of
                       Inl e \<Rightarrow> Inl e
                     | Inr False \<Rightarrow> Inr False
                     | Inr True \<Rightarrow> Inr True)))
      | _ \<Rightarrow> Inr False)"

text \<open>
  The members of an \<open>ExtractService\<close> instance are the five fields the constructor
  sets and the methods \<open>extractData\<close>, \<open>makeApiRequest\<close>,
  \<open>calculateRetryDelay\<close>, \<open>sleep\<close> and \<open>validateExtractedData\<close>. Looking a
  validator up by name finds the last one under its name and \<open>undefined\<close> under
  any name that is not a member.
\<close>

definition ExtractService_method :: "string \<Rightarrow> (js \<Rightarrow> js_error + bool) option" where
  "ExtractService_method m =
     (if m = ''validateExtractedData'' then Some validateExtractedData else None)"

section \<open>transformService.js\<close>

text \<open>The record \<open>transformRecord\<close> builds.\<close>

record canonical =
  id' :: string
  name :: string
  country :: string
  alphaCode :: "string option"
  stateProvince :: "string option"
  domains :: "string list"
  webPages :: "string list"
  lastUpdated :: string

text \<open>An entry of \<open>metadata.errors\<close>.\<close>

record transform_error =
  index :: nat
  record' :: js
  error :: string

record transform_metadata =
  totalRecords :: nat
  successfulTransformations :: nat
  failedTransformations :: nat
  transformationDate :: string
  errors :: "transform_error list"

record transform_result =
  data :: "canonical list"
  metadata :: transform_metadata

text \<open>
  \<open>v.toLowerCase()\<close> on a value read from the record by the expression \<open>expr\<close>:
  only a string has the method.
\<close>

fun call_toLowerCase :: "string \<Rightarrow> js \<Rightarrow> js_error + string" where
  "call_toLowerCase expr (JStr s) = Inr (toLowerCase s)"
| "call_toLowerCase expr JUndefined =
     Inl (TypeError ''Cannot read properties of undefined (reading 'toLowerCase')'')"
| "call_toLowerCase expr JNull =
     Inl (TypeError ''Cannot read properties of null (reading 'toLowerCase')'')"
| "call_toLowerCase expr v = Inl (TypeError (expr @ ''.toLowerCase is not a function''))"

text \<open>\<open>v.toLowerCase().replace(/[^a-z0-9]/g, '-')\<close>.\<close>

definition hyphenate :: "string \<Rightarrow> js \<Rightarrow> js_error + string" where
  "hyphenate expr v =
     (case call_toLowerCase expr v of
        Inl e \<Rightarrow> Inl e
      | Inr s \<Rightarrow> Inr (replace_each (\<lambda>c. \<not> is_alnum c) CHR ''-'' s))"

text \<open>The template literal of \<open>generateId\<close> and the two replacements after it.\<close>

definition assemble_id :: "string \<Rightarrow> string \<Rightarrow> string \<Rightarrow> string" where
  "assemble_id c st n =
     strip_edge_hyphens
       (replace_runs is_hyphen CHR ''-''
          (c @ ''-'' @ (if st \<noteq> [] then st @ ''-'' else []) @ n))"

definition generateId :: "js \<Rightarrow> js_error + string" where
  "generateId r =
     (case hyphenate ''record.name'' (get_prop r ''name'') of
        Inl e \<Rightarrow> Inl e
      | Inr n \<Rightarrow>
          (case hyphenate ''record.country'' (get_prop r ''country'') of
             Inl e \<Rightarrow> Inl e
           | Inr c \<Rightarrow>
               (case (if truthy (get_prop r ''state-province'')
                      then hyphenate ''record.state-province'' (get_prop r ''state-province'')
                      else Inr []) of
                  Inl e \<Rightarrow> Inl e
                | Inr st \<Rightarrow> Inr (assemble_id c st n))))"

definition sanitizeString :: "js \<Rightarrow> string" where
  "sanitizeString v =
     (case v of
        JStr s \<Rightarrow> replace_runs is_space CHR '' '' (trim s)
      | _ \<Rightarrow> js_String v)"

definition transformDomains :: "js \<Rightarrow> string list" where
  "transformDomains v =
     (case v of
        JArr xs \<Rightarrow>
          first_occurrences
            (map (\<lambda>d. case d of JStr s \<Rightarrow> toLowerCase (trim s) | _ \<Rightarrow> [])
               (filter (\<lambda>d. case d of JStr s \<Rightarrow> trim s \<noteq> [] | _ \<Rightarrow> False) xs))
      | _ \<Rightarrow> [])"

definition transformWebPages :: "js \<Rightarrow> string list" where
  "transformWebPages v =
     (case v of
        JArr xs \<Rightarrow>
          first_occurrences
            (map (\<lambda>u. case u of
                        JStr s \<Rightarrow>
                          (let trimmed = trim s
                           in if \<not> startsWith trimmed ''http://'' \<and> \<not> startsWith trimmed ''https://''
                              then ''https://'' @ trimmed else trimmed)
                      | _ \<Rightarrow> [])
               (filter (\<lambda>u. case u of JStr s \<Rightarrow> trim s \<noteq> [] | _ \<Rightarrow> False) xs))
      | _ \<Rightarrow> [])"

text \<open>
  \<open>validateTransformedRecord\<close>. Its other checks, that \<open>name\<close> and \<open>country\<close>
  are strings and \<open>domains\<close> and \<open>webPages\<close> arrays, hold of every
  \<open>canonical\<close> by its type.
\<close>

definition validateTransformedRecord :: "canonical \<Rightarrow> bool" where
  "validateTransformedRecord r =
     (if id' r = [] \<or> name r = [] \<or> country r = [] then False else True)"

text \<open>The test on one required field in \<open>transformRecord\<close>.\<close>

definition required_ok :: "js \<Rightarrow> bool" where
  "required_ok v =
     (\<not> (\<not> truthy v \<or> typeof v \<noteq> ''string'' \<or>
         (case v of JStr s \<Rightarrow> trim s = [] | _ \<Rightarrow> False)))"

text \<open>
  \<open>transformRecord(record, index)\<close>; \<open>now\<close> is the reading of
  \<open>new Date().toISOString()\<close>. The loop over the required fields is unrolled.
\<close>

definition transformRecord :: "string \<Rightarrow> js \<Rightarrow> nat \<Rightarrow> js_error + canonical" where
  "transformRecord now r i =
     (if \<not> truthy r \<or> typeof r \<noteq> ''object'' then
        Inl (Error (''Invalid record type at index '' @ showNat i @ '': expected object''))
      else if \<not> required_ok (get_prop r ''name'') then
        Inl (Error (''Missing or invalid required field '' @ quoted ''name''))
      else if \<not> required_ok (get_prop r ''country'') then
        Inl (Error (''Missing or invalid required field '' @ quoted ''country''))
      else
        (case generateId r of
           Inl e \<Rightarrow> Inl e
         | Inr ident \<Rightarrow>
             (let transformed =
                \<lparr> id' = ident,
                  name = sanitizeString (get_prop r ''name''),
                  country = sanitizeString (get_prop r ''country''),
                  alphaCode =
                    (if truthy (get_prop r ''alpha_two_code'')
                     then Some (sanitizeString (get_prop r ''alpha_two_code'')) else None),
                  stateProvince =
                    (if truthy (get_prop r ''state-province'')
                     then Some (sanitizeString (get_prop r ''state-province'')) else None),
                  domains = transformDomains (get_prop r ''domains''),
                  webPages = transformWebPages (get_prop r ''web_pages''),
                  lastUpdated = now \<rparr>
              in if \<not> validateTransformedRecord transformed
                 then Inl (Error ''Transformed record failed validation'')
                 else Inr transformed)))"

text \<open>
  The loop of \<open>transformData\<close> from index \<open>i\<close> on, with the two arrays it fills.
  \<open>clock i\<close> is the time read while record \<open>i\<close> is transformed.
\<close>

fun transform_loop ::
  "(nat \<Rightarrow> string) \<Rightarrow> js list \<Rightarrow> nat \<Rightarrow> canonical list \<Rightarrow> transform_error list \<Rightarrow>
     canonical list \<times> transform_error list" where
  "transform_loop clock [] i transformedData errs = (transformedData, errs)"
| "transform_loop clock (r # rs) i transformedData errs =
     (case transformRecord (clock i) r i of
        Inr t \<Rightarrow> transform_loop clock rs (i + 1) (transformedData @ [t]) errs
      | Inl e \<Rightarrow>
          transform_loop clock rs (i + 1) transformedData
            (errs @ [\<lparr> index = i, record' = r, error = message e \<rparr>]))"

text \<open>
  \<open>transformData(rawData)\<close>; \<open>stamp\<close> is the time read for
  \<open>transformationDate\<close>. Reading \<open>rawData.length\<close> in the first line throws on
  \<open>null\<close> and \<open>undefined\<close>.
\<close>

definition transformData :: "(nat \<Rightarrow> string) \<Rightarrow> string \<Rightarrow> js \<Rightarrow> js_error + transform_result" where
  "transformData clock stamp rawData =
     (case rawData of
        JArr xs \<Rightarrow>
          (let (transformedData, errs) = transform_loop clock xs 0 [] []
           in Inr \<lparr> data = transformedData,
                    metadata =
                      \<lparr> totalRecords = length xs,
                        successfulTransformations = length transformedData,
                        failedTransformations = length errs,
                        transformationDate = stamp,
                        errors = errs \<rparr> \<rparr>)
      | JUndefined \<Rightarrow> Inl (TypeError ''Cannot read properties of undefined (reading 'length')'')
      | JNull \<Rightarrow> Inl (TypeError ''Cannot read properties of null (reading 'length')'')
      | _ \<Rightarrow> Inl (Error ''Input data must be an array''))"

text \<open>
  The outcome the batch owes to its input, record by record and in order, with \<open>i\<close>
  the index of the first record: the canonical records of the records that
  \<open>transformRecord\<close> accepts, and for each record it rejects an entry with the index,
  the raw record and the message of the error.
\<close>

definition spec_successes :: "(nat \<Rightarrow> string) \<Rightarrow> nat \<Rightarrow> js list \<Rightarrow> canonical list" where
  "spec_successes clk i xs =
     List.map_filter
       (\<lambda>(k, r). case transformRecord (clk k) r k of Inr t \<Rightarrow> Some t | Inl e \<Rightarrow> None)
       (enumerate i xs)"

definition spec_failures :: "(nat \<Rightarrow> string) \<Rightarrow> nat \<Rightarrow> js list \<Rightarrow> transform_error list" where
  "spec_failures clk i xs =
     List.map_filter
       (\<lambda>(k, r). case transformRecord (clk k) r k of
                   Inr t \<Rightarrow> None
                 | Inl e \<Rightarrow> Some \<lparr> index = k, record' = r, error = message e \<rparr>)
       (enumerate i xs)"

section \<open>loadService.js\<close>

text \<open>
  \<open>record[header]\<close> on a record built by \<open>transformRecord\<close>: its eight
  properties under their names, \<open>undefined\<close> under any other name.
\<close>

definition canonical_get :: "canonical \<Rightarrow> string \<Rightarrow> js" where
  "canonical_get r header =
     (if header = ''id'' then JStr (id' r)
      else if header = ''name'' then JStr (name r)
      else if header = ''country'' then JStr (country r)
      else if header = ''alphaCode'' then (case alphaCode r of None \<Rightarrow> JNull | Some s \<Rightarrow> JStr s)
      else if header = ''stateProvince'' then
        (case stateProvince r of None \<Rightarrow> JNull | Some s \<Rightarrow> JStr s)
      else if header = ''domains'' then JArr (map JStr (domains r))
      else if header = ''webPages'' then JArr (map JStr (webPages r))
      else if header = ''lastUpdated'' then JStr (lastUpdated r)
      else JUndefined)"

definition headers :: "string list" where
  "headers = [''id'', ''name'', ''country'', ''alphaCode'', ''state'', ''domains'', ''webPages'',
              ''updatedAt'']"

text \<open>The body of the \<open>headers.map\<close> callback of \<open>generateCsv\<close>, from the value read.\<close>

definition csv_cell :: "js \<Rightarrow> string" where
  "csv_cell v0 =
     (let v1 = (case v0 of JArr xs \<Rightarrow> JStr (js_join '';'' xs) | _ \<Rightarrow> v0);
          v2 = (if v1 = JNull \<or> v1 = JUndefined then JStr [] else v1);
          v3 = js_String v2
      in if CHR '','' \<in> set v3 \<or> CHR 0x22 \<in> set v3
         then [CHR 0x22] @ concat (map (\<lambda>c. if c = CHR 0x22 then [CHR 0x22, CHR 0x22] else [c]) v3) @
              [CHR 0x22]
         else v3)"

definition csv_row :: "canonical \<Rightarrow> string" where
  "csv_row r = join '','' (map (\<lambda>header. csv_cell (canonical_get r header)) headers)"

text \<open>
  \<open>generateCsv(data)\<close>: the text written to the CSV file, or \<open>None\<close> when the
  method returns before writing.
\<close>

definition generateCsv :: "canonical list \<Rightarrow> string option" where
  "generateCsv d =
     (if d = [] then None
      else Some (join [CHR 0x0A] (join '','' headers # map csv_row d)))"

text \<open>
  The files the loader owns: the snapshot (kept as the value that
  \<open>JSON.stringify\<close> writes and \<open>JSON.parse\<close> reads back), the CSV text, and
  the backup directory as a list of named copies. File operations succeed.
\<close>

record store =
  jsonFile :: "transform_result option"
  csvFile :: "string option"
  backups :: "(string \<times> transform_result) list"

record load_result =
  recordsLoaded :: nat
  jsonPath :: string
  csvPath :: string

definition backupExisting :: "store \<Rightarrow> string \<Rightarrow> store" where
  "backupExisting st isoTime =
     (case jsonFile st of
        None \<Rightarrow> st
      | Some snapshot \<Rightarrow>
          (let ts = replace_each (\<lambda>c. c = CHR '':'' \<or> c = CHR ''.'') CHR ''-'' isoTime;
               backupPath = ''data/backups/universities-'' @ ts @ ''.json''
           in st\<lparr>backups := backups st @ [(backupPath, snapshot)]\<rparr>))"

definition saveData :: "store \<Rightarrow> string \<Rightarrow> transform_result \<Rightarrow> store \<times> load_result" where
  "saveData st isoTime d =
     (let st1 = backupExisting st isoTime;
          st2 = st1\<lparr>jsonFile := Some d\<rparr>;
          st3 = (case generateCsv (data d) of None \<Rightarrow> st2 | Some csv \<Rightarrow> st2\<lparr>csvFile := Some csv\<rparr>)
      in (st3, \<lparr> recordsLoaded = length (data d),
                 jsonPath = ''data/universities.json'',
                 csvPath = ''data/universities.csv'' \<rparr>))"

definition readData :: "store \<Rightarrow> transform_result option" where
  "readData st = jsonFile st"

section \<open>etlService.js\<close>

record run_result =
  success :: bool
  duration :: int
  extracted :: nat
  transformed :: nat
  loaded :: nat

text \<open>What one run reads from outside: the network, the random draws and the clock.\<close>

record etl_env =
  net :: "nat \<Rightarrow> axios_result"
  random :: "nat \<Rightarrow> real"
  clock :: "nat \<Rightarrow> string"
  stamp :: string
  saveStamp :: string
  startMs :: int
  endMs :: int

text \<open>
  \<open>run()\<close>. The \<open>catch\<close> block logs and rethrows, so an error of a stage is the
  result. The validator is called as \<open>this.extract.validateData\<close>; calling a
  name that is not a member throws a TypeError.
\<close>

definition run :: "api_config \<Rightarrow> etl_env \<Rightarrow> store \<Rightarrow> (js_error + run_result) \<times> store" where
  "run svc env st =
     (case fst (extractData svc (net env) (random env)) of
        Inl e \<Rightarrow> (Inl e, st)
      | Inr rawData \<Rightarrow>
          (case ExtractService_method ''validateData'' of
             None \<Rightarrow> (Inl (TypeError ''this.extract.validateData is not a function''), st)
           | Some validateData \<Rightarrow>
               (case validateData (JArr rawData) of
                  Inl e \<Rightarrow> (Inl e, st)
                | Inr False \<Rightarrow> (Inl (Error ''Invalid data from API''), st)
                | Inr True \<Rightarrow>
                    (case transformData (clock env) (stamp env) (JArr rawData) of
                       Inl e \<Rightarrow> (Inl e, st)
                     | Inr transformResult \<Rightarrow>
                         (let (st', loadResult) = saveData st (saveStamp env) transformResult
                          in (Inr \<lparr> success = True,
                                    duration = endMs env - startMs env,
                                    extracted = length rawData,
                                    transformed = length (data transformResult),
                                    loaded = recordsLoaded loadResult \<rparr>, st'))))))"

section \<open>schedulerService.js\<close>

text \<open>An entry of the history; \<open>records\<close>, \<open>error\<close> and \<open>type\<close> are set on some paths only.\<close>

record execution =
  timestamp :: string
  success :: bool
  duration :: int
  records :: "nat option"
  error :: "string option"
  type' :: "string option"

text \<open>The scheduler: whether the cron job is registered, the gate, the history.\<close>

record scheduler =
  job :: bool
  running :: bool
  history :: "execution list"

definition new_SchedulerService :: scheduler where
  "new_SchedulerService = \<lparr> job = False, running = False, history = [] \<rparr>"

definition start :: "scheduler \<Rightarrow> scheduler" where
  "start s = (if job s then s else s\<lparr>job := True\<rparr>)"

definition stop :: "scheduler \<Rightarrow> scheduler" where
  "stop s = (if job s then s\<lparr>job := False\<rparr> else s)"

text \<open>
  The entry a firing records once \<open>this.etl.run()\<close> has settled with \<open>outcome\<close>:
  \<open>started\<close> and \<open>now\<close> are the two readings of \<open>Date.now()\<close>, \<open>isoTime\<close> the
  reading of \<open>new Date().toISOString()\<close>, \<open>ty\<close> the \<open>type\<close> property.
\<close>

definition entry_of ::
  "string option \<Rightarrow> int \<Rightarrow> int \<Rightarrow> string \<Rightarrow> js_error + run_result \<Rightarrow> execution" where
  "entry_of ty started now isoTime outcome =
     (case outcome of
        Inr result \<Rightarrow>
          \<lparr> timestamp = isoTime, success = True, duration = now - started,
            records = Some (loaded result), error = None, type' = ty \<rparr>
      | Inl e \<Rightarrow>
          \<lparr> timestamp = isoTime, success = False, duration = now - started,
            records = None, error = Some (message e), type' = ty \<rparr>)"

text \<open>
  An \<open>async\<close> method runs up to its \<open>await\<close> when called and continues when the
  awaited promise settles. \<open>runETL\<close> up to the \<open>await\<close>: the start time when the
  run was started, \<open>None\<close> when the firing was skipped.
\<close>

definition runETL_begin :: "scheduler \<Rightarrow> int \<Rightarrow> int option \<times> scheduler" where
  "runETL_begin s now = (if running s then (None, s) else (Some now, s\<lparr>running := True\<rparr>))"

text \<open>\<open>runETL\<close> from the \<open>await\<close> on, the \<open>finally\<close> block included.\<close>

definition runETL_finish ::
  "scheduler \<Rightarrow> int \<Rightarrow> js_error + run_result \<Rightarrow> int \<Rightarrow> string \<Rightarrow> scheduler" where
  "runETL_finish s started outcome now isoTime =
     (let s1 = s\<lparr>history := entry_of None started now isoTime outcome # history s\<rparr>;
          s2 = s1\<lparr>history := take 10 (history s1)\<rparr>
      in s2\<lparr>running := False\<rparr>)"

text \<open>A whole scheduled firing, nothing else touching the scheduler in between.\<close>

definition runETL ::
  "scheduler \<Rightarrow> int \<Rightarrow> js_error + run_result \<Rightarrow> int \<Rightarrow> string \<Rightarrow> scheduler" where
  "runETL s t0 outcome t1 isoTime =
     (case runETL_begin s t0 of
        (None, s') \<Rightarrow> s'
      | (Some started, s') \<Rightarrow> runETL_finish s' started outcome t1 isoTime)"

text \<open>What \<open>runManual\<close> throws: an error, or the entry of a failed run.\<close>

datatype thrown = ThrownError js_error | ThrownRecord execution

definition runManual_begin :: "scheduler \<Rightarrow> int \<Rightarrow> (js_error + int) \<times> scheduler" where
  "runManual_begin s now =
     (if running s then (Inl (Error ''ETL already running''), s)
      else (Inr now, s\<lparr>running := True\<rparr>))"

definition runManual_finish ::
  "scheduler \<Rightarrow> int \<Rightarrow> js_error + run_result \<Rightarrow> int \<Rightarrow> string \<Rightarrow> (thrown + execution) \<times> scheduler" where
  "runManual_finish s started outcome now isoTime =
     (let entry = entry_of (Some ''manual'') started now isoTime outcome;
          s1 = s\<lparr>history := entry # history s\<rparr>;
          s2 = s1\<lparr>history := take 10 (history s1)\<rparr>
      in ((case outcome of Inr result \<Rightarrow> Inr entry | Inl e \<Rightarrow> Inl (ThrownRecord entry)),
          s2\<lparr>running := False\<rparr>))"

definition runManual ::
  "scheduler \<Rightarrow> int \<Rightarrow> js_error + run_result \<Rightarrow> int \<Rightarrow> string \<Rightarrow> (thrown + execution) \<times> scheduler" where
  "runManual s t0 outcome t1 isoTime =
     (case runManual_begin s t0 of
        (Inl e, s') \<Rightarrow> (Inl (ThrownError e), s')
      | (Inr started, s') \<Rightarrow> runManual_finish s' started outcome t1 isoTime)"

section \<open>Notions of the specification\<close>

text \<open>
  "An object-like structure containing the field \<open>k\<close>", in the words of the
  specification of the extractor's structural validator.
\<close>

fun spec_has_field :: "js \<Rightarrow> string \<Rightarrow> bool" where
  "spec_has_field (JObj kvs) k = (k \<in> fst ` set kvs)"
| "spec_has_field v k = False"

text \<open>"Two consecutive hyphens" somewhere in a string.\<close>

fun double_hyphen :: "string \<Rightarrow> bool" where
  "double_hyphen (a # b # s) = ((is_hyphen a \<and> is_hyphen b) \<or> double_hyphen (b # s))"
| "double_hyphen s = False"

text \<open>"No leading hyphen, no trailing hyphen, and no two consecutive hyphens."\<close>

definition spec_slug_shaped :: "string \<Rightarrow> bool" where
  "spec_slug_shaped s =
     (\<not> (s \<noteq> [] \<and> is_hyphen (hd s)) \<and> \<not> (s \<noteq> [] \<and> is_hyphen (last s)) \<and> \<not> double_hyphen s)"

text \<open>
  "slugify lowercases, replaces every run of non-alphanumeric characters with a single
  hyphen, and strips leading/trailing hyphens."
\<close>

definition spec_strip_hyphens :: "string \<Rightarrow> string" where
  "spec_strip_hyphens s = rev (dropWhile is_hyphen (rev (dropWhile is_hyphen s)))"

definition spec_slugify :: "string \<Rightarrow> string" where
  "spec_slugify s =
     spec_strip_hyphens (replace_runs (\<lambda>c. \<not> is_alnum c) CHR ''-'' (toLowerCase s))"

text \<open>
  "\<open>id\<close> = slugify(country) + optional "-" + slugify(stateProvince) + "-" +
  slugify(name); the three parts are then joined with single hyphens and the whole result
  re-collapsed to remove any resulting duplicate hyphens."
\<close>

definition spec_generateId :: "string \<Rightarrow> string option \<Rightarrow> string \<Rightarrow> string" where
  "spec_generateId c st n =
     replace_runs is_hyphen CHR ''-''
       (spec_slugify c @ (case st of None \<Rightarrow> [] | Some s \<Rightarrow> ''-'' @ spec_slugify s) @ ''-'' @
        spec_slugify n)"

text \<open>The slugs of the parts joined by single hyphens, the empty slugs left out.\<close>

definition spec_join_slugs :: "string list \<Rightarrow> string" where
  "spec_join_slugs parts = join ''-'' (filter (\<lambda>w. w \<noteq> []) (map spec_slugify parts))"

text \<open>
  A string cut at its hyphens, and its words: the pieces that are not empty.
\<close>

fun split_h :: "string \<Rightarrow> string list" where
  "split_h [] = [[]]"
| "split_h (c # cs) =
     (if is_hyphen c then [] # split_h cs else (c # hd (split_h cs)) # tl (split_h cs))"

definition words :: "string \<Rightarrow> string list" where
  "words s = filter (\<lambda>w. w \<noteq> []) (split_h s)"

section \<open>Sample inputs\<close>

text \<open>The raw record of the repository's extraction test, and one with malformed list fields.\<close>

definition test_university :: js where
  "test_university =
     JObj [(''name'', JStr ''Test University''), (''country'', JStr ''United States''),
           (''alpha_two_code'', JStr ''US''), (''state-province'', JStr ''California''),
           (''domains'', JArr [JStr ''test.edu'']), (''web_pages'', JArr [JStr ''https://test.edu''])]"

definition malformed_lists :: js where
  "malformed_lists =
     JObj [(''name'', JStr ''MIT''), (''country'', JStr ''United States''),
           (''domains'', JStr ''mit.edu''), (''web_pages'', JNum 7)]"

text \<open>
  A run whose one request is answered with that record, a loader with no files yet, and
  the canonical form of a record with a state and two domains.
\<close>

definition sample_env :: etl_env where
  "sample_env =
     \<lparr> net = (\<lambda>k. Resolved 200 (JArr [test_university])),
       random = (\<lambda>k. 0),
       clock = (\<lambda>i. ''2025-05-16T00:00:00.000Z''),
       stamp = ''2025-05-16T00:00:00.001Z'',
       saveStamp = ''2025-05-16T00:00:00.002Z'',
       startMs = 0,
       endMs = 3 \<rparr>"

definition empty_store :: store where
  "empty_store = \<lparr> jsonFile = None, csvFile = None, backups = [] \<rparr>"

definition example_canonical :: canonical where
  "example_canonical =
     \<lparr> id' = ''united-states-california-test-university'', name = ''Test University'',
       country = ''United States'', alphaCode = Some ''US'',
       stateProvince = Some ''California'', domains = [''test.edu'', ''t.edu''],
       webPages = [''https://test.edu''], lastUpdated = ''2025-05-16T00:00:00.000Z'' \<rparr>"

section \<open>Retry delay\<close>

lemma Math_pow2_pos: "1 \<le> k \<Longrightarrow> Math_pow2 (k - 1) = 2 ^ nat (k - 1)"
  by (simp add: Math_pow2_def)

text \<open>
  Claim C8, as stated, fails above the cap: with the defaults, attempt 5 and a draw of 0
  the delay is 10000, below \<open>1000 * 2^4 = 16000\<close>.
\<close>

theorem calculateRetryDelay_below_interval:
  "calculateRetryDelay (new_ExtractService config_api) 5 0 = 10000 \<and>
   \<not> (retryDelay (new_ExtractService config_api) * 2 ^ (5 - 1)
        \<le> calculateRetryDelay (new_ExtractService config_api) 5 0)"
  by (simp add: calculateRetryDelay_def Math_pow2_def new_ExtractService_def config_api_def)

text \<open>
  Claim C8, as the code has it. For an attempt \<open>k \<ge> 1\<close> and a draw in \<open>[0, 1)\<close> the
  delay is \<open>min (base * 2^(k-1) + jitter) max\<close> with a jitter in \<open>[0, 1000)\<close>: it
  never exceeds \<open>maxRetryDelay\<close> nor \<open>base * 2^(k-1) + 1000\<close>; it is at least
  \<open>base * 2^(k-1)\<close> whenever that bound itself does not exceed \<open>maxRetryDelay\<close>,
  and it is \<open>maxRetryDelay\<close> otherwise. With the defaults, attempt 1 gives a delay in
  \<open>[1000, 2000]\<close>.
\<close>

theorem calculateRetryDelay_bounds:
  assumes "1 \<le> k" and "0 \<le> u" and "u < 1"
  shows "calculateRetryDelay svc k u = min (retryDelay svc * 2 ^ nat (k - 1) + u * 1000) (maxRetryDelay svc) \<and>
         calculateRetryDelay svc k u \<le> maxRetryDelay svc \<and>
         calculateRetryDelay svc k u \<le> retryDelay svc * 2 ^ nat (k - 1) + 1000 \<and>
         (retryDelay svc * 2 ^ nat (k - 1) \<le> maxRetryDelay svc \<longrightarrow>
            retryDelay svc * 2 ^ nat (k - 1) \<le> calculateRetryDelay svc k u) \<and>
         (maxRetryDelay svc \<le> retryDelay svc * 2 ^ nat (k - 1) \<longrightarrow>
            calculateRetryDelay svc k u = maxRetryDelay svc) \<and>
         1000 \<le> calculateRetryDelay (new_ExtractService config_api) 1 u \<and>
         calculateRetryDelay (new_ExtractService config_api) 1 u \<le> 2000"
  using assms
  by (simp add: calculateRetryDelay_def Math_pow2_pos Math_pow2_def Let_def min_def
        new_ExtractService_def config_api_def)

theorem calculateRetryDelay_bounds_witness:
  "(1::int) \<le> 2 \<and> (0::real) \<le> 1 / 2 \<and> (1 / 2 :: real) < 1 \<and>
   calculateRetryDelay (new_ExtractService config_api) 2 (1 / 2) = 2500 \<and>
   calculateRetryDelay (new_ExtractService config_api) 2 (1 / 2) \<le> 10000 \<and>
   calculateRetryDelay (new_ExtractService config_api) 2 (1 / 2) \<le> 3000 \<and>
   2000 \<le> calculateRetryDelay (new_ExtractService config_api) 2 (1 / 2)"
  using calculateRetryDelay_bounds [of 2 "1 / 2" "new_ExtractService config_api"]
  by (simp add: new_ExtractService_def config_api_def)

section \<open>The structural validator\<close>

lemma has_in_True: "has_in k v = Inr True \<longleftrightarrow> spec_has_field v k"
  by (cases v) auto

text \<open>
  Claim C3, as stated, fails: a first element whose \<open>name\<close> and \<open>country\<close> are
  present but empty is accepted.
\<close>

theorem validateExtractedData_empty_fields:
  "validateExtractedData (JArr [JObj [(''name'', JStr []), (''country'', JStr [])]]) = Inr True"
  by (simp add: validateExtractedData_def)

text \<open>
  Claim C3, as the code has it. The validator returns true if and only if the input is a
  sequence that is empty, or whose first element is an object-like structure containing
  the fields \<open>name\<close> and \<open>country\<close>, whatever their values.
\<close>

theorem validateExtractedData_iff:
  "validateExtractedData d = Inr True \<longleftrightarrow>
     (\<exists>xs. d = JArr xs \<and>
        (xs = [] \<or> (spec_has_field (hd xs) ''name'' \<and> spec_has_field (hd xs) ''country'')))"
  by (auto simp: validateExtractedData_def has_in_True [symmetric]
        split: js.splits list.splits sum.splits bool.splits)

theorem validateExtractedData_iff_witness:
  "validateExtractedData
     (JArr [JObj [(''name'', JStr ''MIT''), (''country'', JStr ''United States'')]]) = Inr True"
  using validateExtractedData_iff
    [of "JArr [JObj [(''name'', JStr ''MIT''), (''country'', JStr ''United States'')]]"]
  by simp

section \<open>Transforming one record\<close>

text \<open>
  Claim C9. When a raw record is accepted at one time, it is accepted at any other time
  (and under any index), and the two canonical records agree on \<open>id\<close> and on every
  other field but \<open>lastUpdated\<close>, which is the time of each transformation.
\<close>

theorem transformRecord_idempotent:
  assumes "transformRecord t1 r i = Inr a"
  shows "\<exists>b. transformRecord t2 r j = Inr b \<and> id' b = id' a \<and> name b = name a \<and>
           country b = country a \<and> alphaCode b = alphaCode a \<and>
           stateProvince b = stateProvince a \<and> domains b = domains a \<and>
           webPages b = webPages a \<and> lastUpdated b = t2 \<and> lastUpdated a = t1"
proof -
  from assms obtain ident where g: "generateId r = Inr ident"
    by (auto simp: transformRecord_def split: if_splits sum.splits)
  from assms g show ?thesis
    by (simp add: transformRecord_def Let_def validateTransformedRecord_def split: if_splits) auto
qed

theorem transformRecord_idempotent_witness:
  "transformRecord ''2025-05-16T00:00:00.000Z'' test_university 0 =
     Inr \<lparr> id' = ''united-states-california-test-university'', name = ''Test University'',
           country = ''United States'', alphaCode = Some ''US'',
           stateProvince = Some ''California'', domains = [''test.edu''],
           webPages = [''https://test.edu''], lastUpdated = ''2025-05-16T00:00:00.000Z'' \<rparr> \<and>
   (\<exists>b. transformRecord ''2025-05-17T00:00:00.000Z'' test_university 1 = Inr b \<and>
        id' b = ''united-states-california-test-university'' \<and>
        name b = ''Test University'' \<and> domains b = [''test.edu''] \<and>
        lastUpdated b = ''2025-05-17T00:00:00.000Z'')"
proof -
  have h: "transformRecord ''2025-05-16T00:00:00.000Z'' test_university 0 =
     Inr \<lparr> id' = ''united-states-california-test-university'', name = ''Test University'',
           country = ''United States'', alphaCode = Some ''US'',
           stateProvince = Some ''California'', domains = [''test.edu''],
           webPages = [''https://test.edu''], lastUpdated = ''2025-05-16T00:00:00.000Z'' \<rparr>"
    by code_simp
  from transformRecord_idempotent [OF h, of "''2025-05-17T00:00:00.000Z''" 1] h
  show ?thesis by auto
qed

lemma get_prop_Cons:
  "get_prop (JObj ((k, v) # kvs)) k' = (if k' = k then v else get_prop (JObj kvs) k')"
  by simp

lemma generateId_indep_domains:
  "generateId (JObj ((''domains'', v) # kvs)) = generateId (JObj kvs)"
  unfolding generateId_def get_prop_Cons by simp

lemma generateId_indep_web_pages:
  "generateId (JObj ((''web_pages'', v) # kvs)) = generateId (JObj kvs)"
  unfolding generateId_def get_prop_Cons by simp

lemma transformDomains_not_array: "\<not> isArray v \<Longrightarrow> transformDomains v = []"
  by (cases v) (auto simp: transformDomains_def)

lemma transformWebPages_not_array: "\<not> isArray v \<Longrightarrow> transformWebPages v = []"
  by (cases v) (auto simp: transformWebPages_def)

text \<open>When and with what \<open>transformRecord\<close> throws.\<close>

lemma transformRecord_Inl_iff:
  "transformRecord now r i = Inl e \<longleftrightarrow>
     (if \<not> truthy r \<or> typeof r \<noteq> ''object'' then
        e = Error (''Invalid record type at index '' @ showNat i @ '': expected object'')
      else if \<not> required_ok (get_prop r ''name'') then
        e = Error (''Missing or invalid required field '' @ quoted ''name'')
      else if \<not> required_ok (get_prop r ''country'') then
        e = Error (''Missing or invalid required field '' @ quoted ''country'')
      else
        (case generateId r of
           Inl e' \<Rightarrow> e = e'
         | Inr ident \<Rightarrow>
             (ident = [] \<or> sanitizeString (get_prop r ''name'') = [] \<or>
              sanitizeString (get_prop r ''country'') = []) \<and>
             e = Error ''Transformed record failed validation''))"
  by (auto simp: transformRecord_def Let_def validateTransformedRecord_def split: sum.splits)

lemma transformRecord_indep_domains:
  "(transformRecord now (JObj ((''domains'', v) # kvs)) i = Inl e) =
   (transformRecord now (JObj kvs) i = Inl e)"
  unfolding transformRecord_Inl_iff generateId_indep_domains get_prop_Cons by simp

lemma transformRecord_indep_web_pages:
  "(transformRecord now (JObj ((''web_pages'', v) # kvs)) i = Inl e) =
   (transformRecord now (JObj kvs) i = Inl e)"
  unfolding transformRecord_Inl_iff generateId_indep_web_pages get_prop_Cons by simp

lemma transformRecord_lists:
  "transformRecord now r i = Inr t \<Longrightarrow>
     domains t = transformDomains (get_prop r ''domains'') \<and>
     webPages t = transformWebPages (get_prop r ''web_pages'')"
  by (auto simp: transformRecord_def Let_def split: if_splits sum.splits)

text \<open>
  Claim C10. A value that is not an array (a missing property reads as \<open>undefined\<close>)
  transforms to the empty list, for \<open>domains\<close> and for \<open>web_pages\<close>; so does the
  field of an accepted record. And the field does not decide rejection: a record to
  which \<open>domains\<close> (or \<open>web_pages\<close>) is set to any value \<open>v\<close> is rejected with an
  error exactly when the record without that setting is rejected with it.
\<close>

theorem malformed_list_fields:
  "(\<not> isArray v \<longrightarrow> transformDomains v = [] \<and> transformWebPages v = []) \<and>
   (transformRecord now r i = Inr t \<longrightarrow>
      (\<not> isArray (get_prop r ''domains'') \<longrightarrow> domains t = []) \<and>
      (\<not> isArray (get_prop r ''web_pages'') \<longrightarrow> webPages t = [])) \<and>
   ((transformRecord now (JObj ((''domains'', v) # kvs)) i = Inl e) =
      (transformRecord now (JObj kvs) i = Inl e)) \<and>
   ((transformRecord now (JObj ((''web_pages'', v) # kvs)) i = Inl e) =
      (transformRecord now (JObj kvs) i = Inl e))"
  using transformRecord_lists [of now r i t]
  by (simp add: transformDomains_not_array transformWebPages_not_array
        transformRecord_indep_domains transformRecord_indep_web_pages)

theorem malformed_list_fields_witness:
  "\<not> isArray (JStr ''mit.edu'') \<and> transformDomains (JStr ''mit.edu'') = [] \<and>
   transformWebPages (JStr ''mit.edu'') = [] \<and>
   transformRecord ''T'' malformed_lists 0 =
     Inr \<lparr> id' = ''united-states-mit'', name = ''MIT'', country = ''United States'',
           alphaCode = None, stateProvince = None, domains = [], webPages = [],
           lastUpdated = ''T'' \<rparr> \<and>
   \<not> isArray (get_prop malformed_lists ''domains'') \<and>
   \<not> isArray (get_prop malformed_lists ''web_pages'')"
proof -
  have h: "transformRecord ''T'' malformed_lists 0 =
     Inr \<lparr> id' = ''united-states-mit'', name = ''MIT'', country = ''United States'',
           alphaCode = None, stateProvince = None, domains = [], webPages = [],
           lastUpdated = ''T'' \<rparr>"
    by code_simp
  have a: "\<not> isArray (get_prop malformed_lists ''domains'')"
    by (simp add: malformed_lists_def)
  have b: "\<not> isArray (get_prop malformed_lists ''web_pages'')"
    by (simp add: malformed_lists_def)
  from malformed_list_fields [of "JStr ''mit.edu''" "''T''" malformed_lists 0
      "\<lparr> id' = ''united-states-mit'', name = ''MIT'', country = ''United States'',
           alphaCode = None, stateProvince = None, domains = [], webPages = [],
           lastUpdated = ''T'' \<rparr>"] h a b
  show ?thesis by simp
qed

section \<open>Transforming a batch\<close>

lemma spec_successes_Nil: "spec_successes clk i [] = []"
  by (simp add: spec_successes_def map_filter_simps)

lemma spec_failures_Nil: "spec_failures clk i [] = []"
  by (simp add: spec_failures_def map_filter_simps)

lemma spec_successes_Cons:
  "spec_successes clk i (r # rs) =
     (case transformRecord (clk i) r i of
        Inr t \<Rightarrow> t # spec_successes clk (Suc i) rs
      | Inl e \<Rightarrow> spec_successes clk (Suc i) rs)"
  by (simp add: spec_successes_def map_filter_simps split: sum.splits)

lemma spec_failures_Cons:
  "spec_failures clk i (r # rs) =
     (case transformRecord (clk i) r i of
        Inr t \<Rightarrow> spec_failures clk (Suc i) rs
      | Inl e \<Rightarrow> \<lparr> index = i, record' = r, transform_error.error = message e \<rparr> #
                 spec_failures clk (Suc i) rs)"
  by (simp add: spec_failures_def map_filter_simps split: sum.splits)

text \<open>The loop adds to its two arrays what it owes to the records left.\<close>

lemma transform_loop_eq:
  "transform_loop clk xs i acc errs =
     (acc @ spec_successes clk i xs, errs @ spec_failures clk i xs)"
proof (induction xs arbitrary: i acc errs)
  case Nil
  show ?case by (simp add: spec_successes_Nil spec_failures_Nil)
next
  case (Cons r rs)
  show ?case
    by (cases "transformRecord (clk i) r i")
       (simp_all add: Cons spec_successes_Cons spec_failures_Cons)
qed

lemma counts_reconcile:
  "length (spec_successes clk i xs) + length (spec_failures clk i xs) = length xs"
proof (induction xs arbitrary: i)
  case Nil
  show ?case by (simp add: spec_successes_Nil spec_failures_Nil)
next
  case (Cons r rs)
  from Cons [of "Suc i"] show ?case
    by (cases "transformRecord (clk i) r i")
       (simp_all add: spec_successes_Cons spec_failures_Cons)
qed

text \<open>No record is passed over: each one is among the records or among the errors.\<close>

lemma every_record_accounted:
  "k < length xs \<Longrightarrow>
     (case transformRecord (clk (i + k)) (xs ! k) (i + k) of
        Inr t \<Rightarrow> t \<in> set (spec_successes clk i xs)
      | Inl e \<Rightarrow>
          \<lparr> index = i + k, record' = xs ! k, transform_error.error = message e \<rparr>
            \<in> set (spec_failures clk i xs))"
proof (induction xs arbitrary: i k)
  case Nil
  then show ?case by simp
next
  case (Cons r rs)
  show ?case
  proof (cases k)
    case 0
    then show ?thesis
      by (simp add: spec_successes_Cons spec_failures_Cons split: sum.splits)
  next
    case (Suc m)
    with Cons.prems have "m < length rs" by simp
    from Cons.IH [OF this, of "Suc i"] Suc show ?thesis
      by (simp add: spec_successes_Cons spec_failures_Cons split: sum.splits)
  qed
qed

lemma every_record_accounted0:
  assumes "k < length xs"
  shows "(\<forall>t. transformRecord (clk k) (xs ! k) k = Inr t \<longrightarrow> t \<in> set (spec_successes clk 0 xs)) \<and>
         (\<forall>e. transformRecord (clk k) (xs ! k) k = Inl e \<longrightarrow>
            \<lparr> index = k, record' = xs ! k, transform_error.error = message e \<rparr>
              \<in> set (spec_failures clk 0 xs))"
  using every_record_accounted [OF assms, where clk = clk and i = 0]
  by (simp split: sum.splits)

text \<open>
  Claim C4. For every array of raw records \<open>transformData\<close> returns a batch; its
  \<open>totalRecords\<close> is the length of the input, the successful and the failed counts add
  up to it, the records are as many as the successful count and the errors as many as the
  failed count. The records are those of the accepted inputs, in order; the errors are,
  in order, one entry per rejected input with its index, the raw record and the message.
  Every input is in one of the two, whatever happened to the inputs before it.
\<close>

theorem transformData_reconciles:
  "\<exists>b. transformData clk st (JArr xs) = Inr b \<and>
       totalRecords (metadata b) = length xs \<and>
       successfulTransformations (metadata b) + failedTransformations (metadata b) =
         totalRecords (metadata b) \<and>
       length (data b) = successfulTransformations (metadata b) \<and>
       length (errors (metadata b)) = failedTransformations (metadata b) \<and>
       data b = spec_successes clk 0 xs \<and>
       errors (metadata b) = spec_failures clk 0 xs \<and>
       (\<forall>k < length xs.
          (\<forall>t. transformRecord (clk k) (xs ! k) k = Inr t \<longrightarrow> t \<in> set (data b)) \<and>
          (\<forall>e. transformRecord (clk k) (xs ! k) k = Inl e \<longrightarrow>
             \<lparr> index = k, record' = xs ! k, transform_error.error = message e \<rparr>
               \<in> set (errors (metadata b))))"
  by (simp add: transformData_def transform_loop_eq counts_reconcile every_record_accounted0)

theorem transformData_reconciles_witness:
  "\<exists>b. transformData (\<lambda>i. ''T'') ''S'' (JArr [JNum 5, malformed_lists, JObj []]) = Inr b \<and>
       totalRecords (metadata b) = 3 \<and>
       successfulTransformations (metadata b) = 1 \<and>
       failedTransformations (metadata b) = 2 \<and>
       map id' (data b) = [''united-states-mit''] \<and>
       map index (errors (metadata b)) = [0, 2] \<and>
       map record' (errors (metadata b)) = [JNum 5, JObj []]"
proof -
  have r0: "transformRecord ''T'' (JNum 5) 0 =
              Inl (Error ''Invalid record type at index 0: expected object'')"
    by code_simp
  have r1: "transformRecord ''T'' malformed_lists (Suc 0) =
     Inr \<lparr> id' = ''united-states-mit'', name = ''MIT'', country = ''United States'',
           alphaCode = None, stateProvince = None, domains = [], webPages = [],
           lastUpdated = ''T'' \<rparr>"
    by code_simp
  have r2: "transformRecord ''T'' (JObj []) (Suc (Suc 0)) =
              Inl (Error (''Missing or invalid required field '' @ quoted ''name''))"
    by code_simp
  have s: "map id' (spec_successes (\<lambda>i. ''T'') 0 [JNum 5, malformed_lists, JObj []]) =
             [''united-states-mit'']"
    by (simp add: spec_successes_Cons spec_successes_Nil r0 r1 r2)
  have f1: "map index (spec_failures (\<lambda>i. ''T'') 0 [JNum 5, malformed_lists, JObj []]) = [0, 2]"
    by (simp add: spec_failures_Cons spec_failures_Nil r0 r1 r2)
  have f2: "map record' (spec_failures (\<lambda>i. ''T'') 0 [JNum 5, malformed_lists, JObj []]) =
              [JNum 5, JObj []]"
    by (simp add: spec_failures_Cons spec_failures_Nil r0 r1 r2)
  from transformData_reconciles [of "\<lambda>i. ''T''" "''S''" "[JNum 5, malformed_lists, JObj []]"]
  obtain b where b: "transformData (\<lambda>i. ''T'') ''S'' (JArr [JNum 5, malformed_lists, JObj []]) = Inr b"
    and tot: "totalRecords (metadata b) = length [JNum 5, malformed_lists, JObj []]"
    and sm: "successfulTransformations (metadata b) + failedTransformations (metadata b) =
         totalRecords (metadata b)"
    and ld: "length (data b) = successfulTransformations (metadata b)"
    and le: "length (errors (metadata b)) = failedTransformations (metadata b)"
    and d: "data b = spec_successes (\<lambda>i. ''T'') 0 [JNum 5, malformed_lists, JObj []]"
    and e: "errors (metadata b) = spec_failures (\<lambda>i. ''T'') 0 [JNum 5, malformed_lists, JObj []]"
    by (elim exE conjE) (rule that)
  from d s have m: "map id' (data b) = [''united-states-mit'']" by simp
  then have "length (map id' (data b)) = 1" by simp
  then have l1: "length (data b) = 1" by simp
  from e f1 have m1: "map index (errors (metadata b)) = [0, 2]" by simp
  from e f2 have m2: "map record' (errors (metadata b)) = [JNum 5, JObj []]" by simp
  from l1 ld sm tot have "successfulTransformations (metadata b) = 1 \<and>
     failedTransformations (metadata b) = 2 \<and> totalRecords (metadata b) = 3"
    by simp
  with b m m1 m2 show ?thesis by (intro exI [of _ b]) simp
qed

section \<open>The scheduler's gate and history\<close>

lemma entry_of_success:
  "execution.success (entry_of ty started now isoTime outcome) = (\<exists>result. outcome = Inr result)"
  by (cases outcome) (simp_all add: entry_of_def)

text \<open>
  Claim C5. A manual trigger that finds the gate set throws "ETL already running" and
  leaves the scheduler, its history included, as it was. A trigger that finds the gate
  clear sets it and leaves the history alone until the run settles, so a second trigger
  in between is refused. When a manual or a scheduled firing settles, with success or
  with failure, the gate is cleared and the history becomes the first 10 of the new entry
  followed by the old history; it never holds more than 10 entries.
\<close>

theorem scheduler_gate:
  "(running s \<longrightarrow>
      runManual s t0 outcome t1 isoTime = (Inl (ThrownError (Error ''ETL already running'')), s)) \<and>
   (\<not> running s \<longrightarrow>
      running (snd (runManual_begin s t0)) \<and>
      history (snd (runManual_begin s t0)) = history s \<and>
      runManual (snd (runManual_begin s t0)) t0' outcome' t1' isoTime' =
        (Inl (ThrownError (Error ''ETL already running'')), snd (runManual_begin s t0))) \<and>
   \<not> running (snd (runManual_finish s started outcome now isoTime)) \<and>
   history (snd (runManual_finish s started outcome now isoTime)) =
     take 10 (entry_of (Some ''manual'') started now isoTime outcome # history s) \<and>
   \<not> running (runETL_finish s started outcome now isoTime) \<and>
   history (runETL_finish s started outcome now isoTime) =
     take 10 (entry_of None started now isoTime outcome # history s) \<and>
   length (history (snd (runManual_finish s started outcome now isoTime))) \<le> 10 \<and>
   length (history (runETL_finish s started outcome now isoTime)) \<le> 10 \<and>
   (\<not> running s \<longrightarrow>
      \<not> running (snd (runManual s t0 outcome t1 isoTime)) \<and>
      history (snd (runManual s t0 outcome t1 isoTime)) =
        take 10 (entry_of (Some ''manual'') t0 t1 isoTime outcome # history s) \<and>
      \<not> running (runETL s t0 outcome t1 isoTime) \<and>
      history (runETL s t0 outcome t1 isoTime) =
        take 10 (entry_of None t0 t1 isoTime outcome # history s))"
  by (simp add: runManual_def runManual_begin_def runManual_finish_def runETL_def
        runETL_begin_def runETL_finish_def Let_def)

theorem scheduler_gate_witness:
  "running (new_SchedulerService\<lparr>running := True\<rparr>) \<and>
   runManual (new_SchedulerService\<lparr>running := True\<rparr>) 0 (Inl (Error ''down'')) 5 ''T'' =
     (Inl (ThrownError (Error ''ETL already running'')), new_SchedulerService\<lparr>running := True\<rparr>) \<and>
   \<not> running new_SchedulerService \<and>
   \<not> running (snd (runManual new_SchedulerService 0 (Inl (Error ''down'')) 5 ''T'')) \<and>
   history (snd (runManual new_SchedulerService 0 (Inl (Error ''down'')) 5 ''T'')) =
     [\<lparr> timestamp = ''T'', success = False, duration = 5, records = None,
        error = Some ''down'', type' = Some ''manual'' \<rparr>]"
  using scheduler_gate [of "new_SchedulerService\<lparr>running := True\<rparr>" 0 "Inl (Error ''down'')" 5 "''T''"]
    scheduler_gate [of new_SchedulerService 0 "Inl (Error ''down'')" 5 "''T''"]
  by (simp add: new_SchedulerService_def entry_of_def)

section \<open>Extraction with retries\<close>

lemma attempt_once_not_array:
  "\<not> isArray body \<Longrightarrow>
     attempt_once (Resolved status body) =
       Inl (Error ''Invalid response format: expected array of universities'')"
  by (cases body) (simp_all add: attempt_once_def)

text \<open>The three ways one turn of the loop goes.\<close>

lemma extract_loop_exhausted:
  "retryAttempts svc < a \<Longrightarrow>
     extract_loop svc nt rd a (Some e) tr =
       (Inl (Error (''Failed to extract data after '' @ showNat (retryAttempts svc) @
                    '' attempts: '' @ message e)), tr)"
  by (subst extract_loop.simps) simp

lemma extract_loop_success:
  "a \<le> retryAttempts svc \<Longrightarrow> attempt_once (nt (requests tr)) = Inr xs \<Longrightarrow>
     extract_loop svc nt rd a le tr = (Inr xs, tr\<lparr>requests := requests tr + 1\<rparr>)"
  by (subst extract_loop.simps) (simp add: Let_def)

lemma extract_loop_failure:
  "a \<le> retryAttempts svc \<Longrightarrow> attempt_once (nt (requests tr)) = Inl e \<Longrightarrow>
     extract_loop svc nt rd a le tr =
       extract_loop svc nt rd (a + 1) (Some e)
         (if a < retryAttempts svc
          then tr\<lparr>requests := requests tr + 1,
                  sleeps := sleeps tr @
                    [calculateRetryDelay svc (int a) (rd (length (sleeps tr)))]\<rparr>
          else tr\<lparr>requests := requests tr + 1\<rparr>)"
  by (subst extract_loop.simps) (simp add: Let_def)

text \<open>
  From attempt \<open>a\<close> on, with \<open>a - 1\<close> requests sent: when every attempt left fails
  the loop sends one request per attempt, sleeps between attempts only, and throws the
  error that names the last failure.
\<close>

lemma extract_loop_all_fail:
  assumes "\<forall>k < retryAttempts svc. isl (attempt_once (nt k))"
    and "1 \<le> a" and "a \<le> retryAttempts svc"
    and "requests tr = a - 1"
  shows "fst (extract_loop svc nt rd a le tr) =
           Inl (Error (''Failed to extract data after '' @ showNat (retryAttempts svc) @
                       '' attempts: '' @
                       message (projl (attempt_once (nt (retryAttempts svc - 1)))))) \<and>
         requests (snd (extract_loop svc nt rd a le tr)) = retryAttempts svc \<and>
         length (sleeps (snd (extract_loop svc nt rd a le tr))) =
           length (sleeps tr) + (retryAttempts svc - a)"
  using assms
proof (induction "retryAttempts svc - a" arbitrary: a le tr)
  case 0
  then have a: "a = retryAttempts svc" by simp
  from 0 have "isl (attempt_once (nt (requests tr)))" by simp
  then obtain e where e: "attempt_once (nt (requests tr)) = Inl e"
    by (cases "attempt_once (nt (requests tr))") simp_all
  have r: "requests tr = retryAttempts svc - 1" using "0.prems" a by simp
  have "extract_loop svc nt rd a le tr =
          extract_loop svc nt rd (a + 1) (Some e) (tr\<lparr>requests := requests tr + 1\<rparr>)"
    using extract_loop_failure [of a svc nt tr e rd le] e a by simp
  also have "\<dots> = (Inl (Error (''Failed to extract data after '' @ showNat (retryAttempts svc) @
                    '' attempts: '' @ message e)), tr\<lparr>requests := requests tr + 1\<rparr>)"
    using a by (intro extract_loop_exhausted) simp
  finally show ?case
    using e r a "0.prems"(2) by simp
next
  case (Suc n)
  then have lt: "a < retryAttempts svc" by simp
  from Suc.prems lt have "isl (attempt_once (nt (requests tr)))" by simp
  then obtain e where e: "attempt_once (nt (requests tr)) = Inl e"
    by (cases "attempt_once (nt (requests tr))") simp_all
  let ?tr = "tr\<lparr>requests := requests tr + 1,
                 sleeps := sleeps tr @ [calculateRetryDelay svc (int a) (rd (length (sleeps tr)))]\<rparr>"
  have step: "extract_loop svc nt rd a le tr = extract_loop svc nt rd (a + 1) (Some e) ?tr"
    using extract_loop_failure [of a svc nt tr e rd le] e lt by simp
  have n: "n = retryAttempts svc - (a + 1)" using Suc.hyps by simp
  have "requests ?tr = (a + 1) - 1" using Suc.prems by simp
  from Suc.hyps(1) [OF n Suc.prems(1) _ _ this, of "Some e"] lt
  show ?case by (simp add: step)
qed

text \<open>When the loop throws, every attempt it had left has failed.\<close>

lemma extract_loop_Inl:
  assumes "fst (extract_loop svc nt rd a le tr) = Inl err" and "a \<le> retryAttempts svc"
  shows "\<forall>k. requests tr \<le> k \<and> k < requests tr + (retryAttempts svc + 1 - a) \<longrightarrow>
           isl (attempt_once (nt k))"
  using assms
proof (induction "retryAttempts svc - a" arbitrary: a le tr)
  case 0
  then have a: "a = retryAttempts svc" by simp
  have "isl (attempt_once (nt (requests tr)))"
  proof (cases "attempt_once (nt (requests tr))")
    case (Inl e)
    then show ?thesis by simp
  next
    case (Inr xs)
    from extract_loop_success [of a svc nt tr xs rd le] "0.prems" Inr
    show ?thesis by simp
  qed
  moreover have "retryAttempts svc + 1 - a = 1" using a by simp
  ultimately show ?case
    by (metis add.commute le_antisym less_Suc_eq_le plus_1_eq_Suc)
next
  case (Suc n)
  then have lt: "a < retryAttempts svc" by simp
  show ?case
  proof (cases "attempt_once (nt (requests tr))")
    case (Inr xs)
    from extract_loop_success [of a svc nt tr xs rd le] Suc.prems Inr
    show ?thesis by simp
  next
    case (Inl e)
    let ?tr = "tr\<lparr>requests := requests tr + 1,
                 sleeps := sleeps tr @ [calculateRetryDelay svc (int a) (rd (length (sleeps tr)))]\<rparr>"
    have step: "extract_loop svc nt rd a le tr = extract_loop svc nt rd (a + 1) (Some e) ?tr"
      using extract_loop_failure [of a svc nt tr e rd le] Inl lt by simp
    have n: "n = retryAttempts svc - (a + 1)" using Suc.hyps by simp
    have "fst (extract_loop svc nt rd (a + 1) (Some e) ?tr) = Inl err"
      using Suc.prems(1) step by simp
    from Suc.hyps(1) [OF n this] lt
    have rest: "\<forall>k. requests tr + 1 \<le> k \<and> k < requests tr + 1 + (retryAttempts svc + 1 - (a + 1)) \<longrightarrow>
           isl (attempt_once (nt k))"
      by simp
    show ?thesis
    proof (intro allI impI)
      fix k
      assume k: "requests tr \<le> k \<and> k < requests tr + (retryAttempts svc + 1 - a)"
      show "isl (attempt_once (nt k))"
      proof (cases "k = requests tr")
        case True
        with Inl show ?thesis by simp
      next
        case False
        with k lt have "requests tr + 1 \<le> k \<and>
            k < requests tr + 1 + (retryAttempts svc + 1 - (a + 1))"
          by arith
        with rest show ?thesis by simp
      qed
    qed
  qed
qed

text \<open>
  Claim C6. With at least one attempt configured (the default is 3): when every attempt
  fails, by a rejected request or by a body that is not a sequence, \<open>extractData\<close>
  sends exactly \<open>retryAttempts\<close> requests, sleeps between the attempts only, and throws
  the error whose message names the count of attempts and ends with the message of the
  last failure. It throws nothing else, and throws only when every attempt has failed.
\<close>

theorem extractData_exhausted:
  assumes "0 < retryAttempts svc"
  shows "((\<forall>k < retryAttempts svc. isl (attempt_once (nt k))) \<longrightarrow>
            fst (extractData svc nt rd) =
              Inl (Error (''Failed to extract data after '' @ showNat (retryAttempts svc) @
                          '' attempts: '' @
                          message (projl (attempt_once (nt (retryAttempts svc - 1)))))) \<and>
            requests (snd (extractData svc nt rd)) = retryAttempts svc \<and>
            length (sleeps (snd (extractData svc nt rd))) = retryAttempts svc - 1) \<and>
         (\<forall>err. fst (extractData svc nt rd) = Inl err \<longrightarrow>
            (\<forall>k < retryAttempts svc. isl (attempt_once (nt k))) \<and>
            err = Error (''Failed to extract data after '' @ showNat (retryAttempts svc) @
                         '' attempts: '' @
                         message (projl (attempt_once (nt (retryAttempts svc - 1)))))) \<and>
         (\<forall>status body. \<not> isArray body \<longrightarrow>
            attempt_once (Resolved status body) =
              Inl (Error ''Invalid response format: expected array of universities'')) \<and>
         retryAttempts (new_ExtractService config_api) = 3 \<and> showNat 3 = ''3''"
proof -
  let ?tr0 = "\<lparr>requests = 0, sleeps = []\<rparr>"
  have one: "1 \<le> retryAttempts svc" using assms by simp
  have A: "fst (extractData svc nt rd) =
              Inl (Error (''Failed to extract data after '' @ showNat (retryAttempts svc) @
                          '' attempts: '' @
                          message (projl (attempt_once (nt (retryAttempts svc - 1)))))) \<and>
            requests (snd (extractData svc nt rd)) = retryAttempts svc \<and>
            length (sleeps (snd (extractData svc nt rd))) = retryAttempts svc - 1"
    if all: "\<forall>k < retryAttempts svc. isl (attempt_once (nt k))"
    using extract_loop_all_fail [OF all _ one, of ?tr0 rd None]
    by (simp add: extractData_def)
  have B: "\<forall>k < retryAttempts svc. isl (attempt_once (nt k))"
    if "fst (extractData svc nt rd) = Inl err" for err
    using extract_loop_Inl [of svc nt rd 1 None ?tr0 err] that one
    by (simp add: extractData_def)
  have C: "retryAttempts (new_ExtractService config_api) = 3"
    by (simp add: new_ExtractService_def config_api_def)
  have D: "showNat 3 = ''3''" by code_simp
  from A B C D attempt_once_not_array show ?thesis
    by (intro conjI allI impI) simp_all
qed

theorem extractData_exhausted_witness:
  "0 < retryAttempts (new_ExtractService config_api) \<and>
   isl (attempt_once (RejectedSetup ''Persistent network error'')) \<and>
   fst (extractData (new_ExtractService config_api)
          (\<lambda>k. RejectedSetup ''Persistent network error'') (\<lambda>k. 0)) =
     Inl (Error ''Failed to extract data after 3 attempts: Request setup failed: Persistent network error'') \<and>
   requests (snd (extractData (new_ExtractService config_api)
          (\<lambda>k. RejectedSetup ''Persistent network error'') (\<lambda>k. 0))) = 3"
proof -
  have n: "retryAttempts (new_ExtractService config_api) = 3"
    by (simp add: new_ExtractService_def config_api_def)
  have f: "attempt_once (RejectedSetup ''Persistent network error'') =
             Inl (Error ''Request setup failed: Persistent network error'')"
    by (simp add: attempt_once_def)
  from extractData_exhausted
    [of "new_ExtractService config_api" "\<lambda>k. RejectedSetup ''Persistent network error''" "\<lambda>k. 0"]
  show ?thesis
    by (simp add: n f)
qed

section \<open>The run of the pipeline\<close>

text \<open>Once extraction has succeeded, the call of the validator throws.\<close>

lemma run_after_extraction:
  "fst (extractData svc (net env) (random env)) = Inr rawData \<Longrightarrow>
     run svc env st = (Inl (TypeError ''this.extract.validateData is not a function''), st)"
  by (simp add: run_def ExtractService_method_def)

lemma run_never_succeeds: "fst (run svc env st) \<noteq> Inr result"
  by (simp add: run_def ExtractService_method_def split: sum.splits)

text \<open>
  Claim C1, on the code: extraction answers with one record that the structural validator
  accepts, and \<open>run\<close> throws a TypeError instead of going on to transform and load,
  because \<open>validateData\<close> is not a method of the extractor
  (\<open>validateExtractedData\<close> is). Nothing is stored.
\<close>

theorem run_fails_on_valid_extraction:
  "fst (extractData (new_ExtractService config_api) (net sample_env) (random sample_env)) =
     Inr [test_university] \<and>
   validateExtractedData (JArr [test_university]) = Inr True \<and>
   run (new_ExtractService config_api) sample_env empty_store =
     (Inl (TypeError ''this.extract.validateData is not a function''), empty_store)"
proof -
  have e: "fst (extractData (new_ExtractService config_api) (net sample_env) (random sample_env)) =
     Inr [test_university]"
    using extract_loop_success
      [of 1 "new_ExtractService config_api" "net sample_env" "\<lparr>requests = 0, sleeps = []\<rparr>"
          "[test_university]" "random sample_env" None]
    by (simp add: extractData_def sample_env_def new_ExtractService_def config_api_def
          attempt_once_def)
  have v: "validateExtractedData (JArr [test_university]) = Inr True"
    by (simp add: validateExtractedData_def test_university_def)
  from run_after_extraction [OF e] e v show ?thesis by simp
qed

section \<open>The CSV rendering\<close>

lemma csv_cell_undefined: "csv_cell JUndefined = []"
  by (simp add: csv_cell_def)

lemma csv_row_cells:
  "csv_row r =
     join '',''
       [csv_cell (JStr (id' r)), csv_cell (JStr (name r)), csv_cell (JStr (country r)),
        csv_cell (case alphaCode r of None \<Rightarrow> JNull | Some s \<Rightarrow> JStr s),
        [],
        csv_cell (JArr (map JStr (domains r))), csv_cell (JArr (map JStr (webPages r))),
        []]"
  by (simp add: csv_row_def headers_def canonical_get_def csv_cell_undefined)

text \<open>
  Claim C2, on the code: the header line names the fifth column \<open>state\<close> and the eighth
  \<open>updatedAt\<close>, properties a canonical record does not have, so these two cells are
  empty in every row; the state and the time of the record are not in the file.
\<close>

theorem generateCsv_loses_state_and_time:
  "generateCsv [example_canonical] =
     Some (''id,name,country,alphaCode,state,domains,webPages,updatedAt'' @ [CHR 0x0A] @
           ''united-states-california-test-university,Test University,United States,US,,test.edu;t.edu,https://test.edu,'')"
  by code_simp

section \<open>Slugs\<close>

subsection \<open>Cutting at hyphens\<close>

lemma split_h_nonempty: "split_h s \<noteq> []"
  by (induction s) simp_all

lemma split_h_hyphen: "split_h (CHR ''-'' # s) = [] # split_h s"
  by (simp add: is_hyphen_def)

lemma words_Nil: "words [] = []"
  by (simp add: words_def)

lemma words_hyphen: "is_hyphen c \<Longrightarrow> words (c # s) = words s"
  by (simp add: words_def)

lemma words_letter:
  "\<not> is_hyphen c \<Longrightarrow>
     words (c # s) =
       (c # hd (split_h s)) # (if hd (split_h s) = [] then words s else tl (words s))"
  using split_h_nonempty [of s]
  by (cases "split_h s") (simp_all add: words_def)

lemma hd_split_h_letter: "\<not> is_hyphen c \<Longrightarrow> hd (split_h (c # s)) = c # hd (split_h s)"
  by simp

lemma hd_split_h_hyphen: "is_hyphen c \<Longrightarrow> hd (split_h (c # s)) = []"
  by simp

lemma split_h_append: "split_h (a @ CHR ''-'' # b) = split_h a @ split_h b"
proof (induction a)
  case Nil
  show ?case by (simp add: is_hyphen_def)
next
  case (Cons c a)
  show ?case
    using split_h_nonempty [of a] by (cases "split_h a") (simp_all add: Cons)
qed

lemma words_append: "words (a @ CHR ''-'' # b) = words a @ words b"
  by (simp add: words_def split_h_append)

lemma words_snoc_hyphen: "words (a @ [CHR ''-'']) = words a"
  using words_append [of a "[]"] by (simp add: words_Nil)

lemma words_dropWhile: "words (dropWhile is_hyphen s) = words s"
  by (induction s) (simp_all add: words_hyphen)

lemma words_nonempty: "w \<in> set (words s) \<Longrightarrow> w \<noteq> []"
  by (simp add: words_def)

lemma join_split_h: "join ''-'' (split_h s) = s"
proof (induction s)
  case Nil
  show ?case by simp
next
  case (Cons c s)
  obtain w ws where sp: "split_h s = w # ws"
    using split_h_nonempty [of s] by (cases "split_h s") simp_all
  show ?case
  proof (cases "is_hyphen c")
    case True
    with Cons sp show ?thesis by (simp add: is_hyphen_def)
  next
    case False
    with Cons sp show ?thesis by (cases ws) simp_all
  qed
qed

subsection \<open>Strings without empty pieces\<close>

lemma double_hyphen_Cons: "double_hyphen s \<Longrightarrow> double_hyphen (c # s)"
  by (cases s) simp_all

lemma double_hyphen_Cons_iff:
  "double_hyphen (c # s) = ((is_hyphen c \<and> s \<noteq> [] \<and> is_hyphen (hd s)) \<or> double_hyphen s)"
  by (cases s) auto

lemma double_hyphen_snoc:
  "double_hyphen (u @ [l]) = (double_hyphen u \<or> (u \<noteq> [] \<and> is_hyphen (last u) \<and> is_hyphen l))"
  by (induction u rule: double_hyphen.induct) auto

lemma hd_split_h_empty: "hd (split_h s) = [] \<longleftrightarrow> s = [] \<or> is_hyphen (hd s)"
  by (cases s) simp_all

lemma empty_piece_tl:
  "[] \<in> set (tl (split_h s)) \<Longrightarrow> is_hyphen (last s) \<or> double_hyphen s"
proof (induction s)
  case Nil
  then show ?case by simp
next
  case (Cons c t)
  show ?case
  proof (cases "is_hyphen c")
    case True
    with Cons.prems have mem: "[] \<in> set (split_h t)" by simp
    show ?thesis
    proof (cases "hd (split_h t) = []")
      case True
      then have "t = [] \<or> is_hyphen (hd t)" by (simp add: hd_split_h_empty)
      with \<open>is_hyphen c\<close> show ?thesis by (auto simp: double_hyphen_Cons_iff)
    next
      case False
      with mem split_h_nonempty [of t] have tlmem: "[] \<in> set (tl (split_h t))"
        by (cases "split_h t") auto
      then have "t \<noteq> []" by auto
      with Cons.IH [OF tlmem] show ?thesis
        by (auto simp: double_hyphen_Cons_iff)
    qed
  next
    case False
    with Cons.prems have mem: "[] \<in> set (tl (split_h t))" by simp
    then have "t \<noteq> []" by auto
    with Cons.IH [OF mem] show ?thesis
      by (auto simp: double_hyphen_Cons_iff)
  qed
qed

lemma empty_piece:
  assumes "[] \<in> set (split_h s)"
  shows "s = [] \<or> is_hyphen (hd s) \<or> is_hyphen (last s) \<or> double_hyphen s"
proof (cases "hd (split_h s) = []")
  case True
  then show ?thesis by (auto simp: hd_split_h_empty)
next
  case False
  with assms split_h_nonempty [of s] have "[] \<in> set (tl (split_h s))"
    by (cases "split_h s") auto
  from empty_piece_tl [OF this] show ?thesis by blast
qed

text \<open>A string of the shape of a slug is its words joined by hyphens.\<close>

lemma slug_shaped_join_words:
  assumes "spec_slug_shaped t"
  shows "join ''-'' (words t) = t"
proof (cases "[] \<in> set (split_h t)")
  case True
  from empty_piece [OF this] assms have "t = []"
    by (auto simp: spec_slug_shaped_def)
  then show ?thesis by (simp add: words_Nil)
next
  case False
  then have "words t = split_h t"
    by (auto simp: words_def filter_id_conv)
  then show ?thesis by (simp add: join_split_h)
qed

subsection \<open>Collapsing runs of hyphens\<close>

lemma collapse_Nil_iff: "replace_runs is_hyphen CHR ''-'' s = [] \<longleftrightarrow> s = []"
  by (cases s) simp_all

lemma collapse_hd:
  "s \<noteq> [] \<Longrightarrow> is_hyphen (hd (replace_runs is_hyphen CHR ''-'' s)) = is_hyphen (hd s)"
  by (cases s) (simp_all add: is_hyphen_def)

lemma dropWhile_no_hyphen_first:
  "dropWhile is_hyphen s \<noteq> [] \<Longrightarrow> \<not> is_hyphen (hd (dropWhile is_hyphen s))"
  by (rule hd_dropWhile)

lemma collapse_words:
  "words (replace_runs is_hyphen CHR ''-'' s) = words s \<and>
   hd (split_h (replace_runs is_hyphen CHR ''-'' s)) = hd (split_h s)"
proof (induction "is_hyphen" "CHR ''-''" s rule: replace_runs.induct)
  case 1
  show ?case by simp
next
  case (2 c cs)
  show ?case
  proof (cases "is_hyphen c")
    case True
    have h: "is_hyphen CHR ''-''" by (simp add: is_hyphen_def)
    from 2(1) [OF True] True show ?thesis
      by (simp add: words_hyphen [OF h] words_hyphen [OF True] words_dropWhile h)
  next
    case False
    with 2(2) [OF False] show ?thesis
      by (simp add: words_letter)
  qed
qed

lemma collapse_no_double: "\<not> double_hyphen (replace_runs is_hyphen CHR ''-'' s)"
proof (induction "is_hyphen" "CHR ''-''" s rule: replace_runs.induct)
  case 1
  show ?case by simp
next
  case (2 c cs)
  show ?case
  proof (cases "is_hyphen c")
    case True
    let ?y = "replace_runs is_hyphen CHR ''-'' (dropWhile is_hyphen cs)"
    have "\<not> (?y \<noteq> [] \<and> is_hyphen (hd ?y))"
    proof
      assume a: "?y \<noteq> [] \<and> is_hyphen (hd ?y)"
      then have ne: "dropWhile is_hyphen cs \<noteq> []" by (simp add: collapse_Nil_iff)
      with a have "is_hyphen (hd (dropWhile is_hyphen cs))" by (simp add: collapse_hd)
      with dropWhile_no_hyphen_first [OF ne] show False by simp
    qed
    moreover have "\<not> double_hyphen ?y" by (rule 2(1) [OF True])
    moreover have "replace_runs is_hyphen CHR ''-'' (c # cs) = CHR ''-'' # ?y"
      using True by simp
    ultimately show ?thesis
      by (simp add: double_hyphen_Cons_iff)
  next
    case False
    with 2(2) [OF False] show ?thesis
      by (simp add: double_hyphen_Cons_iff)
  qed
qed

subsection \<open>Stripping the hyphens at the ends\<close>

lemma words_strip_edge: "words (strip_edge_hyphens s) = words s"
proof -
  define s1 where "s1 = (case s of [] \<Rightarrow> [] | c # cs \<Rightarrow> if is_hyphen c then cs else s)"
  have w1: "words s1 = words s"
    by (cases s) (simp_all add: s1_def words_hyphen)
  have "words (if s1 \<noteq> [] \<and> is_hyphen (last s1) then butlast s1 else s1) = words s1"
  proof (cases "s1 \<noteq> [] \<and> is_hyphen (last s1)")
    case True
    then have "s1 = butlast s1 @ [CHR ''-'']"
      by (simp add: is_hyphen_def) (metis append_butlast_last_id)
    then have "words s1 = words (butlast s1)"
      using words_snoc_hyphen [of "butlast s1"] by simp
    with True show ?thesis by simp
  next
    case False
    then show ?thesis by auto
  qed
  moreover have "strip_edge_hyphens s =
      (if s1 \<noteq> [] \<and> is_hyphen (last s1) then butlast s1 else s1)"
    by (simp add: strip_edge_hyphens_def s1_def Let_def)
  ultimately show ?thesis
    using w1 by simp
qed

lemma strip_edge_shaped:
  assumes "\<not> double_hyphen s"
  shows "spec_slug_shaped (strip_edge_hyphens s)"
proof -
  define s1 where "s1 = (case s of [] \<Rightarrow> [] | c # cs \<Rightarrow> if is_hyphen c then cs else s)"
  have d1: "\<not> double_hyphen s1"
    using assms by (cases s) (auto simp: s1_def double_hyphen_Cons_iff)
  have h1: "\<not> (s1 \<noteq> [] \<and> is_hyphen (hd s1))"
    using assms by (cases s) (auto simp: s1_def double_hyphen_Cons_iff)
  have r: "strip_edge_hyphens s = (if s1 \<noteq> [] \<and> is_hyphen (last s1) then butlast s1 else s1)"
    by (simp add: strip_edge_hyphens_def s1_def Let_def)
  show ?thesis
  proof (cases "s1 \<noteq> [] \<and> is_hyphen (last s1)")
    case False
    with d1 h1 r show ?thesis by (auto simp: spec_slug_shaped_def)
  next
    case True
    then obtain u l where ul: "s1 = u @ [l]" "is_hyphen l"
      by (metis append_butlast_last_id)
    with d1 have du: "\<not> double_hyphen u" and lu: "\<not> (u \<noteq> [] \<and> is_hyphen (last u))"
      by (simp_all add: double_hyphen_snoc)
    from h1 ul have hu: "\<not> (u \<noteq> [] \<and> is_hyphen (hd u))"
      by (cases u) simp_all
    from True ul r have "strip_edge_hyphens s = u" by simp
    with du lu hu show ?thesis by (simp add: spec_slug_shaped_def)
  qed
qed

text \<open>What the two replacements at the end of \<open>generateId\<close> make of a string.\<close>

lemma strip_collapse_shaped:
  "spec_slug_shaped (strip_edge_hyphens (replace_runs is_hyphen CHR ''-'' s))"
  by (rule strip_edge_shaped) (rule collapse_no_double)

lemma strip_collapse_words:
  "strip_edge_hyphens (replace_runs is_hyphen CHR ''-'' s) = join ''-'' (words s)"
proof -
  let ?t = "strip_edge_hyphens (replace_runs is_hyphen CHR ''-'' s)"
  have "join ''-'' (words ?t) = ?t"
    by (rule slug_shaped_join_words) (rule strip_collapse_shaped)
  moreover have "words ?t = words s"
    by (simp add: words_strip_edge collapse_words)
  ultimately show ?thesis by simp
qed

subsection \<open>The slug of the specification\<close>

lemma alnum_not_hyphen: "is_alnum c \<Longrightarrow> \<not> is_hyphen c"
  by (auto simp: is_alnum_def is_hyphen_def Let_def)

lemma dropWhile_hyphenated:
  "dropWhile is_hyphen (replace_each (\<lambda>c. \<not> is_alnum c) CHR ''-'' s) =
     replace_each (\<lambda>c. \<not> is_alnum c) CHR ''-'' (dropWhile (\<lambda>c. \<not> is_alnum c) s)"
  by (induction s) (auto simp: replace_each_def is_hyphen_def alnum_not_hyphen [unfolded is_hyphen_def])

lemma runs_of_non_alnum:
  "replace_runs (\<lambda>c. \<not> is_alnum c) CHR ''-'' s =
     replace_runs is_hyphen CHR ''-'' (replace_each (\<lambda>c. \<not> is_alnum c) CHR ''-'' s)"
proof (induction "\<lambda>c. \<not> is_alnum c" "CHR ''-''" s rule: replace_runs.induct)
  case 1
  show ?case by (simp add: replace_each_def)
next
  case (2 c cs)
  show ?case
  proof (cases "is_alnum c")
    case True
    with 2(2) alnum_not_hyphen [OF True] show ?thesis
      by (simp add: replace_each_def)
  next
    case False
    have h: "is_hyphen CHR ''-''" by (simp add: is_hyphen_def)
    from False 2(1) have "replace_runs (\<lambda>c. \<not> is_alnum c) CHR ''-'' (c # cs) =
        CHR ''-'' # replace_runs is_hyphen CHR ''-''
          (replace_each (\<lambda>c. \<not> is_alnum c) CHR ''-'' (dropWhile (\<lambda>c. \<not> is_alnum c) cs))"
      by simp
    also have "\<dots> = CHR ''-'' # replace_runs is_hyphen CHR ''-''
          (dropWhile is_hyphen (replace_each (\<lambda>c. \<not> is_alnum c) CHR ''-'' cs))"
      by (simp add: dropWhile_hyphenated)
    also have "\<dots> = replace_runs is_hyphen CHR ''-''
          (CHR ''-'' # replace_each (\<lambda>c. \<not> is_alnum c) CHR ''-'' cs)"
      using h by simp
    also have "\<dots> = replace_runs is_hyphen CHR ''-''
          (replace_each (\<lambda>c. \<not> is_alnum c) CHR ''-'' (c # cs))"
      using False by (simp add: replace_each_def)
    finally show ?thesis .
  qed
qed

lemma dropWhile_id: "\<not> (s \<noteq> [] \<and> P (hd s)) \<Longrightarrow> dropWhile P s = s"
  by (cases s) auto

lemma strip_all_is_strip_edge:
  assumes "\<not> double_hyphen s"
  shows "spec_strip_hyphens s = strip_edge_hyphens s"
proof -
  define s1 where "s1 = (case s of [] \<Rightarrow> [] | c # cs \<Rightarrow> if is_hyphen c then cs else s)"
  have d1: "\<not> double_hyphen s1"
    using assms by (cases s) (auto simp: s1_def double_hyphen_Cons_iff)
  have h1: "\<not> (s1 \<noteq> [] \<and> is_hyphen (hd s1))"
    using assms by (cases s) (auto simp: s1_def double_hyphen_Cons_iff)
  have lead_eq: "dropWhile is_hyphen s = s1"
  proof (cases s)
    case Nil
    then show ?thesis by (simp add: s1_def)
  next
    case (Cons c cs)
    show ?thesis
    proof (cases "is_hyphen c")
      case True
      with Cons have "s1 = cs" by (simp add: s1_def)
      with h1 True Cons show ?thesis by (simp add: dropWhile_id)
    next
      case False
      with Cons show ?thesis by (simp add: s1_def)
    qed
  qed
  have r: "strip_edge_hyphens s = (if s1 \<noteq> [] \<and> is_hyphen (last s1) then butlast s1 else s1)"
    by (simp add: strip_edge_hyphens_def s1_def Let_def)
  have trail_eq: "rev (dropWhile is_hyphen (rev s1)) =
                (if s1 \<noteq> [] \<and> is_hyphen (last s1) then butlast s1 else s1)"
  proof (cases "s1 \<noteq> [] \<and> is_hyphen (last s1)")
    case False
    then have "\<not> (rev s1 \<noteq> [] \<and> is_hyphen (hd (rev s1)))"
      by (simp add: hd_rev)
    then have "dropWhile is_hyphen (rev s1) = rev s1" by (rule dropWhile_id)
    with False show ?thesis by auto
  next
    case True
    then obtain u l where ul: "s1 = u @ [l]" "is_hyphen l"
      by (metis append_butlast_last_id)
    with d1 have lu: "\<not> (u \<noteq> [] \<and> is_hyphen (last u))"
      by (simp add: double_hyphen_snoc)
    then have "\<not> (rev u \<noteq> [] \<and> is_hyphen (hd (rev u)))"
      by (simp add: hd_rev)
    then have "dropWhile is_hyphen (rev u) = rev u" by (rule dropWhile_id)
    with ul True show ?thesis by simp
  qed
  show ?thesis
    unfolding spec_strip_hyphens_def lead_eq trail_eq r ..
qed

lemma spec_slugify_words:
  "spec_slugify x =
     join ''-'' (words (replace_each (\<lambda>c. \<not> is_alnum c) CHR ''-'' (toLowerCase x)))"
  unfolding spec_slugify_def runs_of_non_alnum
  by (simp add: strip_all_is_strip_edge [OF collapse_no_double] strip_collapse_words)

subsection \<open>Joining words\<close>

lemma join_Cons: "join sep (x # xs) = (if xs = [] then x else x @ sep @ join sep xs)"
  by (cases xs) simp_all

lemma join_append:
  "xs \<noteq> [] \<Longrightarrow> ys \<noteq> [] \<Longrightarrow> join sep (xs @ ys) = join sep xs @ sep @ join sep ys"
  by (induction xs) (simp_all add: join_Cons)

lemma join_empty_iff:
  "\<forall>w \<in> set ws. w \<noteq> [] \<Longrightarrow> join sep ws = [] \<longleftrightarrow> ws = []"
  by (cases ws) (simp_all add: join_Cons)

lemma join_joined:
  assumes "\<forall>ws \<in> set wss. \<forall>w \<in> set ws. w \<noteq> []"
  shows "join ''-'' (filter (\<lambda>w. w \<noteq> []) (map (join ''-'') wss)) = join ''-'' (concat wss)"
  using assms
proof (induction wss)
  case Nil
  show ?case by simp
next
  case (Cons ws wss)
  then have IH: "join ''-'' (filter (\<lambda>w. w \<noteq> []) (map (join ''-'') wss)) = join ''-'' (concat wss)"
    by simp
  from Cons.prems have ne: "\<forall>w \<in> set ws. w \<noteq> []" by simp
  from Cons.prems have ne': "\<forall>w \<in> set (concat wss). w \<noteq> []" by auto
  show ?case
  proof (cases "ws = []")
    case True
    with IH show ?thesis by simp
  next
    case False
    with ne have j: "join ''-'' ws \<noteq> []" by (simp add: join_empty_iff)
    show ?thesis
    proof (cases "concat wss = []")
      case True
      have "join ''-'' (filter (\<lambda>w. w \<noteq> []) (map (join ''-'') wss)) = []"
        using IH unfolding True by simp
      moreover have "\<forall>w \<in> set (filter (\<lambda>w. w \<noteq> []) (map (join ''-'') wss)). w \<noteq> []"
        by simp
      ultimately have f: "filter (\<lambda>w. w \<noteq> []) (map (join ''-'') wss) = []"
        using join_empty_iff by blast
      have "concat (ws # wss) = ws" unfolding concat.simps True by simp
      moreover have "filter (\<lambda>w. w \<noteq> []) (map (join ''-'') (ws # wss)) = [join ''-'' ws]"
        using j f by simp
      ultimately show ?thesis by (simp only: join.simps)
    next
      case c: False
      with ne' have "join ''-'' (concat wss) \<noteq> []" by (simp add: join_empty_iff)
      with IH have "filter (\<lambda>w. w \<noteq> []) (map (join ''-'') wss) \<noteq> []"
        by auto
      with j IH False c show ?thesis
        by (simp add: join_Cons join_append)
    qed
  qed
qed

lemma spec_join_slugs_words:
  "spec_join_slugs parts =
     join ''-''
       (concat (map (\<lambda>x. words (replace_each (\<lambda>c. \<not> is_alnum c) CHR ''-'' (toLowerCase x))) parts))"
proof -
  let ?w = "\<lambda>x. words (replace_each (\<lambda>c. \<not> is_alnum c) CHR ''-'' (toLowerCase x))"
  have "map spec_slugify parts = map (join ''-'') (map ?w parts)"
    by (simp add: spec_slugify_words)
  moreover have "\<forall>ws \<in> set (map ?w parts). \<forall>w \<in> set ws. w \<noteq> []"
    by (auto dest: words_nonempty)
  ultimately show ?thesis
    unfolding spec_join_slugs_def by (simp only: join_joined)
qed

subsection \<open>The id\<close>

lemma assemble_id_words:
  "assemble_id c st n = join ''-'' (words c @ words st @ words n)"
proof -
  have "words (c @ ''-'' @ (if st \<noteq> [] then st @ ''-'' else []) @ n) =
          words c @ words st @ words n"
    using words_append [of c "st @ CHR ''-'' # n"] words_append [of st n] words_append [of c n]
    by (simp add: words_Nil)
  then show ?thesis
    by (simp add: assemble_id_def strip_collapse_words)
qed

lemma hyphenate_string:
  "hyphenate expr (JStr s) = Inr (replace_each (\<lambda>c. \<not> is_alnum c) CHR ''-'' (toLowerCase s))"
  by (simp add: hyphenate_def)

lemma generateId_Inr:
  "generateId r = Inr ident \<Longrightarrow> \<exists>c st n. ident = assemble_id c st n"
  by (auto simp: generateId_def split: sum.splits if_splits)

text \<open>
  Claim C7, as stated, fails where a slug is empty: for the country \<open>United States\<close>
  and the name \<open>***\<close> the id is \<open>united-states\<close>, while the slug of the country,
  a hyphen and the (empty) slug of the name make \<open>united-states-\<close>.
\<close>

theorem generateId_differs_from_formula:
  "generateId (JObj [(''name'', JStr ''***''), (''country'', JStr ''United States'')]) =
     Inr ''united-states'' \<and>
   spec_generateId ''United States'' None ''***'' = ''united-states-''"
  by code_simp

text \<open>
  Claim C7, as the code has it. For a raw record whose \<open>name\<close> and \<open>country\<close> are
  strings, the id is the slugs of the country, of the state-province when there is one,
  and of the name, joined by single hyphens with the empty slugs left out; when no slug
  is empty that is slug, hyphen, slug (hyphen, slug). Every id that \<open>generateId\<close>
  returns has no leading hyphen, no trailing hyphen and no two consecutive hyphens.
\<close>

theorem generateId_slug:
  assumes "get_prop r ''name'' = JStr n" and "get_prop r ''country'' = JStr c"
  shows "(\<not> truthy (get_prop r ''state-province'') \<longrightarrow>
            generateId r = Inr (spec_join_slugs [c, n])) \<and>
         (\<forall>s. get_prop r ''state-province'' = JStr s \<and> s \<noteq> [] \<longrightarrow>
            generateId r = Inr (spec_join_slugs [c, s, n])) \<and>
         (\<forall>ident. generateId r = Inr ident \<longrightarrow> spec_slug_shaped ident) \<and>
         (spec_slugify c \<noteq> [] \<and> spec_slugify n \<noteq> [] \<longrightarrow>
            spec_join_slugs [c, n] = spec_slugify c @ ''-'' @ spec_slugify n \<and>
            (\<forall>s. spec_slugify s \<noteq> [] \<longrightarrow>
               spec_join_slugs [c, s, n] =
                 spec_slugify c @ ''-'' @ spec_slugify s @ ''-'' @ spec_slugify n))"
proof (intro conjI allI impI)
  assume "\<not> truthy (get_prop r ''state-province'')"
  with assms show "generateId r = Inr (spec_join_slugs [c, n])"
    by (simp add: generateId_def hyphenate_string assemble_id_words spec_join_slugs_words
          words_Nil)
next
  fix s
  assume "get_prop r ''state-province'' = JStr s \<and> s \<noteq> []"
  with assms show "generateId r = Inr (spec_join_slugs [c, s, n])"
    by (simp add: generateId_def hyphenate_string assemble_id_words spec_join_slugs_words)
next
  fix ident
  assume "generateId r = Inr ident"
  from generateId_Inr [OF this] show "spec_slug_shaped ident"
    by (auto simp: assemble_id_def strip_collapse_shaped)
next
  assume "spec_slugify c \<noteq> [] \<and> spec_slugify n \<noteq> []"
  then show "spec_join_slugs [c, n] = spec_slugify c @ ''-'' @ spec_slugify n"
    by (simp add: spec_join_slugs_def)
next
  fix s
  assume "spec_slugify c \<noteq> [] \<and> spec_slugify n \<noteq> []" "spec_slugify s \<noteq> []"
  then show "spec_join_slugs [c, s, n] =
      spec_slugify c @ ''-'' @ spec_slugify s @ ''-'' @ spec_slugify n"
    by (simp add: spec_join_slugs_def)
qed

theorem generateId_slug_witness:
  "get_prop test_university ''name'' = JStr ''Test University'' \<and>
   get_prop test_university ''country'' = JStr ''United States'' \<and>
   get_prop test_university ''state-province'' = JStr ''California'' \<and>
   generateId test_university = Inr ''united-states-california-test-university'' \<and>
   spec_slug_shaped ''united-states-california-test-university''"
proof -
  have a: "get_prop test_university ''name'' = JStr ''Test University''"
    by (simp add: test_university_def)
  have b: "get_prop test_university ''country'' = JStr ''United States''"
    by (simp add: test_university_def)
  have c: "get_prop test_university ''state-province'' = JStr ''California''"
    by (simp add: test_university_def)
  have j: "spec_join_slugs [''United States'', ''California'', ''Test University''] =
             ''united-states-california-test-university''"
    by code_simp
  from generateId_slug [OF a b] c
  have g: "generateId test_university =
             Inr (spec_join_slugs [''United States'', ''California'', ''Test University''])"
    by simp
  from generateId_slug [OF a b] g
  have "spec_slug_shaped (spec_join_slugs [''United States'', ''California'', ''Test University''])"
    by simp
  with a b c g show ?thesis by (simp add: j)
qed

end
